theory Spec2Isabelle
  imports Main
begin

text \<open>
  A model of \<^verbatim>\<open>rhizomatic.py\<close>, which lists the edits of a Wikipedia page or of a user by
  following the paged history listings, and writes them to a CSV file. The functions
  \<^verbatim>\<open>get_page_history\<close>, \<^verbatim>\<open>get_user_edit_history\<close>, \<^verbatim>\<open>write_tuples_to_csv\<close> and
  \<^verbatim>\<open>main\<close> are modelled with their names; what they call in libraries is either
  modelled (regular expressions, \<^verbatim>\<open>strftime\<close>, \<^verbatim>\<open>int\<close>, \<^verbatim>\<open>raise_for_status\<close>, the CSV
  writer and reader) or taken as a parameter (the site, the HTML parser, XPath, the date
  parser, the file system).
\<close>

section \<open>Python values used by rhizomatic.py\<close>

text \<open>
  Exceptions are values. Only the class matters to \<^verbatim>\<open>except RequestException\<close>; the
  \<^verbatim>\<open>strerror\<close> attribute is kept because the page-history handler logs it.
  \<^verbatim>\<open>HTTPError\<close>, \<^verbatim>\<open>ConnectionError\<close> and \<^verbatim>\<open>Timeout\<close> are subclasses of
  \<^verbatim>\<open>RequestException\<close> in the requests library.
\<close>

datatype exn_class =
  RequestException | HTTPError | ConnectionError | Timeout
  | ValueError | AttributeError | IndexError | ParserError | CsvError | FileNotFoundError
  | UnicodeEncodeError | OtherException

datatype py_exn = Exn (exn_class: exn_class) (strerror: "string option")

definition is_RequestException :: "py_exn \<Rightarrow> bool" where
  "is_RequestException e =
     (case exn_class e of
        RequestException \<Rightarrow> True | HTTPError \<Rightarrow> True | ConnectionError \<Rightarrow> True
      | Timeout \<Rightarrow> True | _ \<Rightarrow> False)"

text \<open>
  What is handed to the logger: a string, \<^verbatim>\<open>None\<close> or an exception object. The
  records of a run are the logger's \<^verbatim>\<open>info\<close> and \<^verbatim>\<open>error\<close> calls, and what
  \<^verbatim>\<open>main\<close> prints (\<^verbatim>\<open>print\<close>, and the usage text of \<^verbatim>\<open>print_help\<close>).
\<close>

datatype py_obj = Str string | NoneObj | ExnObj py_exn

datatype log_record = INFO string | ERROR py_obj | PRINT string | PRINT_HELP

subsection \<open>Decimal rendering: \<^verbatim>\<open>str(int)\<close>, \<^verbatim>\<open>int(str)\<close> and \<^verbatim>\<open>strftime\<close>\<close>

definition digit_char :: "nat \<Rightarrow> char" where
  "digit_char d = ''0123456789'' ! d"

function str_nat :: "nat \<Rightarrow> string" where
  "str_nat n = (if n < 10 then [digit_char n] else str_nat (n div 10) @ [digit_char (n mod 10)])"
  by pat_completeness auto
termination
  by (relation "measure id") auto

declare str_nat.simps [simp del]

definition str_int :: "int \<Rightarrow> string" where
  "str_int i = (if i < 0 then CHR ''-'' # str_nat (nat (- i)) else str_nat (nat i))"

definition is_digit :: "char \<Rightarrow> bool" where
  "is_digit c = (48 \<le> (of_char c :: nat) \<and> (of_char c :: nat) \<le> 57)"

definition digit_val :: "char \<Rightarrow> nat" where
  "digit_val c = of_char c - 48"

definition nat_of_digits :: "string \<Rightarrow> nat" where
  "nat_of_digits s = foldl (\<lambda>a c. 10 * a + digit_val c) 0 s"

text \<open>
  \<^verbatim>\<open>int(s)\<close> on a string of decimal digits; anything else is a \<^verbatim>\<open>ValueError\<close> here
  (the only caller passes the output of \<^verbatim>\<open>strftime\<close>, which is all digits).
\<close>

definition py_int :: "string \<Rightarrow> py_exn + int" where
  "py_int s =
     (if s \<noteq> [] \<and> list_all is_digit s then Inr (int (nat_of_digits s))
      else Inl (Exn ValueError None))"

record datetime =
  year :: nat
  month :: nat
  day :: nat
  hour :: nat
  minute :: nat
  second :: nat

definition zfill :: "nat \<Rightarrow> string \<Rightarrow> string" where
  "zfill w s = replicate (w - length s) (CHR ''0'') @ s"

text \<open>
  \<^verbatim>\<open>last_page_date.strftime('%Y%m%d%H%M%S')\<close>, every field zero-padded. (A C library
  that does not pad a year below 1000 gives another text but, read by \<^verbatim>\<open>int\<close>, the same
  number.)
\<close>

definition strftime_YmdHMS :: "datetime \<Rightarrow> string" where
  "strftime_YmdHMS d =
     zfill 4 (str_nat (year d)) @ zfill 2 (str_nat (month d)) @ zfill 2 (str_nat (day d))
     @ zfill 2 (str_nat (hour d)) @ zfill 2 (str_nat (minute d)) @ zfill 2 (str_nat (second d))"

text \<open>\<^verbatim>\<open>xs[-1]\<close>: raises \<^verbatim>\<open>IndexError\<close> on the empty list.\<close>

definition py_last :: "'a list \<Rightarrow> py_exn + 'a" where
  "py_last xs = (if xs = [] then Inl (Exn IndexError None) else Inr (last xs))"

section \<open>Regular expressions: \<^verbatim>\<open>re.search\<close> with backtracking\<close>

text \<open>
  The two functions recover a title with \<^verbatim>\<open>re.search(r'.*/([^/]+)+', url).group(1)\<close>.
  The matcher below is a backtracking matcher in continuation style, greedy as Python's:
  a repetition first tries one more round and falls back to the continuation.
  \<^verbatim>\<open>.\<close> matches every character but the line feed; a group records the text its last
  round consumed.
\<close>

datatype rx = Dot | Lit char | NotLit char | Star rx | Plus rx | Seq rx rx | Group nat rx

type_synonym groups = "nat \<Rightarrow> string option"
type_synonym mstate = "string \<times> groups"

definition newline :: char where
  "newline = CHR 0x0A"

abbreviation slash :: char where
  "slash \<equiv> CHR ''/''"

function (sequential) rx_match :: "rx \<Rightarrow> (mstate \<Rightarrow> mstate option) \<Rightarrow> mstate \<Rightarrow> mstate option" where
  "rx_match Dot k (s, g) =
     (case s of [] \<Rightarrow> None | x # t \<Rightarrow> if x = newline then None else k (t, g))"
| "rx_match (Lit c) k (s, g) =
     (case s of [] \<Rightarrow> None | x # t \<Rightarrow> if x = c then k (t, g) else None)"
| "rx_match (NotLit c) k (s, g) =
     (case s of [] \<Rightarrow> None | x # t \<Rightarrow> if x = c then None else k (t, g))"
| "rx_match (Seq a b) k st = rx_match a (\<lambda>st'. rx_match b k st') st"
| "rx_match (Group n r) k (s, g) =
     rx_match r (\<lambda>st'. k (fst st', (snd st')(n \<mapsto> take (length s - length (fst st')) s))) (s, g)"
| "rx_match (Star r) k (s, g) =
     (case rx_match r (\<lambda>st'. if length (fst st') < length s then rx_match (Star r) k st' else None) (s, g) of
        Some m \<Rightarrow> Some m
      | None \<Rightarrow> k (s, g))"
| "rx_match (Plus r) k st = rx_match r (\<lambda>st'. rx_match (Star r) k st') st"
  by pat_completeness auto
termination
  by (relation "measures [\<lambda>(r, k, st). size r, \<lambda>(r, k, st). (case r of Plus _ \<Rightarrow> 1 | _ \<Rightarrow> 0),
                          \<lambda>(r, k, st). length (fst st)]") auto

text \<open>\<^verbatim>\<open>re.search\<close>: the first start position, from the left, at which the pattern matches.\<close>

fun re_search :: "rx \<Rightarrow> string \<Rightarrow> groups option" where
  "re_search p [] = map_option snd (rx_match p Some ([], Map.empty))"
| "re_search p (x # t) =
     (case rx_match p Some (x # t, Map.empty) of
        Some m \<Rightarrow> Some (snd m)
      | None \<Rightarrow> re_search p t)"

text \<open>The pattern \<^verbatim>\<open>.*/([^/]+)+\<close>.\<close>

definition title_pattern :: rx where
  "title_pattern = Seq (Star Dot) (Seq (Lit slash) (Plus (Group 1 (Plus (NotLit slash)))))"

text \<open>
  \<^verbatim>\<open>re.search(pattern, url)\<close> followed by \<^verbatim>\<open>.group(1)\<close>; \<open>None\<close> when there is no match.
  Group 1 takes part in every match of this pattern (lemma \<open>title_pattern_match\<close> below).
\<close>

definition title_from_url :: "string \<Rightarrow> string option" where
  "title_from_url url = Option.bind (re_search title_pattern url) (\<lambda>g. g 1)"

section \<open>The libraries the scraper calls\<close>

text \<open>
  \<^verbatim>\<open>requests.get\<close> either raises or returns a response. The run of one function is
  played against a script: the outcomes of the successive \<^verbatim>\<open>get\<close> calls, in order. When
  the script is used up the next request never returns (no timeout is configured), and the
  function does not return either: the value \<open>None\<close>.
\<close>

record 'b response =
  status_code :: int
  content :: 'b

type_synonym 'b script = "(py_exn + 'b response) list"

text \<open>\<^verbatim>\<open>response.raise_for_status()\<close>: an \<^verbatim>\<open>HTTPError\<close> for a status in 400..599.\<close>

definition raise_for_status :: "'b response \<Rightarrow> py_exn + unit" where
  "raise_for_status r =
     (if 400 \<le> status_code r \<and> status_code r < 600 then Inl (Exn HTTPError None) else Inr ())"

text \<open>
  The HTML parser, XPath evaluation and the date parser of dateutil are parameters:
  \<^verbatim>\<open>html.document_fromstring\<close> (may raise), \<^verbatim>\<open>document.xpath(query)\<close> (a list of strings)
  and \<^verbatim>\<open>parser.parse\<close> (may raise).
\<close>

record ('b, 'd) libs =
  document_fromstring :: "'b \<Rightarrow> py_exn + 'd"
  xpath :: "'d \<Rightarrow> string \<Rightarrow> string list"
  parse :: "string \<Rightarrow> py_exn + datetime"

type_synonym entry = "string \<times> string \<times> string"

text \<open>The effects of a run that the caller can observe besides the returned list.\<close>

record effects =
  requests :: "string list"
  logged :: "log_record list"

text \<open>
  One round of the \<^verbatim>\<open>while True\<close> loop ends in \<^verbatim>\<open>break\<close>, goes on with a new
  offset, or raises. Each carries the entries the round has appended to \<^verbatim>\<open>all_entries\<close>
  by then.
\<close>

datatype step = Break "entry list" | Continue "entry list" string | Raised "entry list" py_exn

fun appended :: "step \<Rightarrow> entry list" where
  "appended (Break es) = es"
| "appended (Continue es offset) = es"
| "appended (Raised es e) = es"

fun continues :: "step \<Rightarrow> bool" where
  "continues (Continue es offset) = True"
| "continues _ = False"

text \<open>
  Lines 65-66 and 105-106: \<^verbatim>\<open>offset = int(parser.parse(edit_times[-1]).strftime(...))\<close>,
  as the text the f-string puts into the next URL.
\<close>

definition next_offset :: "('b, 'd) libs \<Rightarrow> string list \<Rightarrow> py_exn + string" where
  "next_offset L edit_times =
     (case py_last edit_times of
        Inl e \<Rightarrow> Inl e
      | Inr ts \<Rightarrow>
          (case parse L ts of
             Inl e \<Rightarrow> Inl e
           | Inr last_page_date \<Rightarrow>
               (case py_int (strftime_YmdHMS last_page_date) of
                  Inl e \<Rightarrow> Inl e
                | Inr offset \<Rightarrow> Inr (str_int offset))))"

section \<open>\<^verbatim>\<open>get_page_history\<close>\<close>

definition editors_query :: string where
  \<open>editors_query = ''//ul[contains(@class,"mw-contributions-list")]//bdi/text()''\<close>

definition page_times_query :: string where
  \<open>page_times_query =
     ''//ul[@class="mw-contributions-list"]//a[contains(@class,"mw-changeslist-date")]/text()''\<close>

definition history_url :: "string \<Rightarrow> string \<Rightarrow> int \<Rightarrow> string" where
  "history_url title offset limit =
     ''https://en.wikipedia.org/w/index.php?title='' @ title @ ''&action=history&offset=''
     @ offset @ ''&limit='' @ str_int limit"

text \<open>Line 60: the zip of the two columns against the fixed title.\<close>

definition page_entries_of :: "string \<Rightarrow> string list \<Rightarrow> string list \<Rightarrow> entry list" where
  "page_entries_of title editors edit_times = map (\<lambda>(e, t). (e, t, title)) (zip editors edit_times)"

text \<open>Lines 55-67, one round of the loop on the outcome of its \<^verbatim>\<open>get\<close>.\<close>

definition page_body :: "('b, 'd) libs \<Rightarrow> string \<Rightarrow> int \<Rightarrow> py_exn + 'b response \<Rightarrow> step" where
  "page_body L title limit r =
     (case r of
        Inl e \<Rightarrow> Raised [] e
      | Inr response \<Rightarrow>
          (case document_fromstring L (content response) of
             Inl e \<Rightarrow> Raised [] e
           | Inr document \<Rightarrow>
               (let editors = xpath L document editors_query;
                    edit_times = xpath L document page_times_query;
                    page_entries = page_entries_of title editors edit_times
                in if int (length page_entries) < limit then Break page_entries
                   else (case next_offset L edit_times of
                           Inl e \<Rightarrow> Raised page_entries e
                         | Inr offset \<Rightarrow> Continue page_entries offset))))"

text \<open>
  Lines 68-72: the handler logs a \<^verbatim>\<open>RequestException\<close>; whatever was raised, the
  \<^verbatim>\<open>return\<close> in the \<^verbatim>\<open>finally\<close> block then returns \<^verbatim>\<open>all_entries\<close>.
\<close>

definition page_except :: "py_exn \<Rightarrow> effects \<Rightarrow> effects" where
  "page_except e fx =
     (if is_RequestException e
      then fx\<lparr>logged := logged fx @
             [ERROR (case strerror e of None \<Rightarrow> NoneObj | Some s \<Rightarrow> Str s),
              ERROR (Str ''error fetching page, restart at last offset'')]\<rparr>
      else fx)"

definition page_info :: "string \<Rightarrow> int \<Rightarrow> string \<Rightarrow> string \<Rightarrow> log_record list" where
  "page_info title limit offset url =
     [INFO (''fetching history for page '' @ title @ '', '' @ str_int limit
            @ '' entries starting at '' @ offset),
      INFO (''Sending request to '' @ url)]"

fun page_history_loop ::
  "('b, 'd) libs \<Rightarrow> string \<Rightarrow> int \<Rightarrow> 'b script \<Rightarrow> string \<Rightarrow> string \<Rightarrow> entry list \<Rightarrow> effects
     \<Rightarrow> (entry list \<times> effects) option" where
  "page_history_loop L title limit [] offset url all_entries fx = None"
| "page_history_loop L title limit (r # script) offset url all_entries fx =
     (let fx1 = fx\<lparr>logged := logged fx @ page_info title limit offset url,
                   requests := requests fx @ [url]\<rparr>
      in case page_body L title limit r of
           Break page_entries \<Rightarrow> Some (all_entries @ page_entries, fx1)
         | Raised page_entries e \<Rightarrow> Some (all_entries @ page_entries, page_except e fx1)
         | Continue page_entries offset' \<Rightarrow>
             page_history_loop L title limit script offset' (history_url title offset' limit)
               (all_entries @ page_entries) fx1)"

definition no_effects :: effects where
  "no_effects = \<lparr>requests = [], logged = []\<rparr>"

text \<open>
  The function either raises (\<open>Inl\<close>, the \<^verbatim>\<open>ValueError\<close> of line 43) or returns a list.
\<close>

definition get_page_history ::
  "('b, 'd) libs \<Rightarrow> 'b script \<Rightarrow> string \<Rightarrow> string \<Rightarrow> int
     \<Rightarrow> ((py_exn + entry list) \<times> effects) option" where
  "get_page_history L script wiki_url offset limit =
     (case title_from_url wiki_url of
        None \<Rightarrow>
          Some (Inl (Exn ValueError None),
                no_effects\<lparr>logged := [ERROR (Str ''No title found'')]\<rparr>)
      | Some title \<Rightarrow>
          map_option (\<lambda>(all_entries, fx). (Inr all_entries, fx))
            (page_history_loop L title limit script offset (history_url title offset limit)
               [] no_effects))"

section \<open>\<^verbatim>\<open>get_user_edit_history\<close>\<close>

definition user_times_query :: string where
  \<open>user_times_query = ''//a[contains(@class,"mw-changeslist-date")]/text()''\<close>

definition user_titles_query :: string where
  \<open>user_titles_query = ''//a[contains(@class,"mw-contributions-title")]/@href''\<close>

definition contributions_url_of :: "string \<Rightarrow> int \<Rightarrow> string \<Rightarrow> string" where
  "contributions_url_of username limit offset =
     ''https://en.wikipedia.org/w/index.php'' @ ''?title='' @ ''Special:Contributions''
     @ ''&target='' @ username @ ''&limit='' @ str_int limit @ ''&offset='' @ offset"

text \<open>
  Lines 92-95: \<^verbatim>\<open>[re.search(pattern, url).group(1) for url in hrefs]\<close>. With no match
  \<^verbatim>\<open>re.search\<close> returns \<^verbatim>\<open>None\<close> and \<^verbatim>\<open>.group\<close> raises \<^verbatim>\<open>AttributeError\<close>, which ends the
  comprehension.
\<close>

fun edit_page_titles_of :: "string list \<Rightarrow> py_exn + string list" where
  "edit_page_titles_of [] = Inr []"
| "edit_page_titles_of (url # urls) =
     (case title_from_url url of
        None \<Rightarrow> Inl (Exn AttributeError None)
      | Some title \<Rightarrow>
          (case edit_page_titles_of urls of
             Inl e \<Rightarrow> Inl e
           | Inr titles \<Rightarrow> Inr (title # titles)))"

definition user_entries_of :: "string \<Rightarrow> string list \<Rightarrow> string list \<Rightarrow> entry list" where
  "user_entries_of username edit_times edit_page_titles =
     map (\<lambda>(time, title). (username, time, title)) (zip edit_times edit_page_titles)"

text \<open>Lines 88-107, one round of the loop on the outcome of its \<^verbatim>\<open>get\<close>.\<close>

definition user_body :: "('b, 'd) libs \<Rightarrow> string \<Rightarrow> int \<Rightarrow> py_exn + 'b response \<Rightarrow> step" where
  "user_body L username limit r =
     (case r of
        Inl e \<Rightarrow> Raised [] e
      | Inr response \<Rightarrow>
          (case raise_for_status response of
             Inl e \<Rightarrow> Raised [] e
           | Inr _ \<Rightarrow>
               (case document_fromstring L (content response) of
                  Inl e \<Rightarrow> Raised [] e
                | Inr document \<Rightarrow>
                    (let edit_times = xpath L document user_times_query
                     in case edit_page_titles_of (xpath L document user_titles_query) of
                          Inl e \<Rightarrow> Raised [] e
                        | Inr edit_page_titles \<Rightarrow>
                            (let page_entries = user_entries_of username edit_times edit_page_titles
                             in if int (length page_entries) < limit then Break page_entries
                                else (case next_offset L edit_times of
                                        Inl e \<Rightarrow> Raised page_entries e
                                      | Inr offset \<Rightarrow> Continue page_entries offset))))))"

definition user_except :: "py_exn \<Rightarrow> effects \<Rightarrow> effects" where
  "user_except e fx =
     (if is_RequestException e
      then fx\<lparr>logged := logged fx @
             [ERROR (Str ''error fetching page, restart at last offset''), ERROR (ExnObj e)]\<rparr>
      else fx)"

definition user_info :: "string \<Rightarrow> int \<Rightarrow> string \<Rightarrow> string \<Rightarrow> log_record list" where
  "user_info username limit offset url =
     [INFO (''fetching history for '' @ username @ '', '' @ str_int limit
            @ '' entries starting at '' @ offset),
      INFO (''Sending request to '' @ url)]"

fun user_history_loop ::
  "('b, 'd) libs \<Rightarrow> string \<Rightarrow> int \<Rightarrow> 'b script \<Rightarrow> string \<Rightarrow> string \<Rightarrow> entry list \<Rightarrow> effects
     \<Rightarrow> (entry list \<times> effects) option" where
  "user_history_loop L username limit [] offset url all_entries fx = None"
| "user_history_loop L username limit (r # script) offset url all_entries fx =
     (let fx1 = fx\<lparr>logged := logged fx @ user_info username limit offset url,
                   requests := requests fx @ [url]\<rparr>
      in case user_body L username limit r of
           Break page_entries \<Rightarrow> Some (all_entries @ page_entries, fx1)
         | Raised page_entries e \<Rightarrow> Some (all_entries @ page_entries, user_except e fx1)
         | Continue page_entries offset' \<Rightarrow>
             user_history_loop L username limit script offset'
               (contributions_url_of username limit offset') (all_entries @ page_entries) fx1)"

definition get_user_edit_history ::
  "('b, 'd) libs \<Rightarrow> 'b script \<Rightarrow> string \<Rightarrow> string \<Rightarrow> int \<Rightarrow> (entry list \<times> effects) option" where
  "get_user_edit_history L script username offset limit =
     user_history_loop L username limit script offset
       (contributions_url_of username limit offset) [] no_effects"

section \<open>\<^verbatim>\<open>write_tuples_to_csv\<close>\<close>

text \<open>
  \<^verbatim>\<open>csv.writer\<close> with the default dialect: delimiter \<^verbatim>\<open>,\<close>, quote character \<^verbatim>\<open>"\<close>
  doubled inside a quoted field, minimal quoting (a field is quoted when it holds the
  delimiter, the quote character, a carriage return or a line feed), rows ended by
  carriage return and line feed. A row of one empty field is written as two quotes.
\<close>

definition comma :: char where
  "comma = CHR '',''"

definition dquote :: char where
  "dquote = CHR 0x22"

definition CR :: char where
  "CR = CHR 0x0D"

definition LF :: char where
  "LF = CHR 0x0A"

definition special :: "char \<Rightarrow> bool" where
  "special c = (c = comma \<or> c = dquote \<or> c = CR \<or> c = LF)"

definition needs_quotes :: "string \<Rightarrow> bool" where
  "needs_quotes f = list_ex special f"

fun double_quotes :: "string \<Rightarrow> string" where
  "double_quotes [] = []"
| "double_quotes (c # cs) = (if c = dquote then dquote # dquote # double_quotes cs
                             else c # double_quotes cs)"

definition quote_field :: "string \<Rightarrow> string" where
  "quote_field f = (if needs_quotes f then dquote # double_quotes f @ [dquote] else f)"

fun join_fields :: "string list \<Rightarrow> string" where
  "join_fields [] = []"
| "join_fields [f] = f"
| "join_fields (f # g # fs) = f @ comma # join_fields (g # fs)"

definition writerow :: "string list \<Rightarrow> string" where
  "writerow row =
     (if row = [[]] then [dquote, dquote] else join_fields (map quote_field row)) @ [CR, LF]"


text \<open>
  The file system: the text of every file, the error (if any) with which opening a path
  for writing fails, and the characters that the encoding of text files can encode. The
  file is opened by \<^verbatim>\<open>open(output_file, mode='w', newline='')\<close>, so in text mode with the
  encoding of the locale and strict error handling; opening empties the file. A file holds
  text here: what is read back is what was encoded. Apart from these two errors a write
  is taken to succeed (the device has room).
\<close>

record filesystem =
  files :: "string \<Rightarrow> string option"
  refuses :: "string \<Rightarrow> py_exn option"
  encodes :: "char \<Rightarrow> bool"

definition headers :: "string list" where
  "headers = [''editor'', ''timestamp'', ''page'']"

text \<open>
  The writer hands each row to \<^verbatim>\<open>file.write\<close> as one text, which is encoded at once: a
  character the encoding does not have raises \<^verbatim>\<open>UnicodeEncodeError\<close>, and nothing of that
  row or of the later rows is written. The rows written before it are in the file when
  the \<^verbatim>\<open>with\<close> block closes it.
\<close>

fun write_lines :: "(char \<Rightarrow> bool) \<Rightarrow> string \<Rightarrow> string list \<Rightarrow> py_exn option \<times> string" where
  "write_lines enc written [] = (None, written)"
| "write_lines enc written (line # lines) =
     (if list_all enc line then write_lines enc (written @ line) lines
      else (Some (Exn UnicodeEncodeError None), written))"

text \<open>
  Lines 116-122. The result is the exception raised, if any, and the file system after
  the call.
\<close>

definition write_tuples_to_csv ::
  "filesystem \<Rightarrow> entry list \<Rightarrow> string \<Rightarrow> py_exn option \<times> filesystem" where
  "write_tuples_to_csv fsys editing_history output_file =
     (case refuses fsys output_file of
        Some e \<Rightarrow> (Some e, fsys)
      | None \<Rightarrow>
          (case write_lines (encodes fsys) []
                  (writerow headers
                   # map (\<lambda>(editor, timestamp, page). writerow [editor, timestamp, page])
                       editing_history) of
             (raised, written) \<Rightarrow>
               (raised, fsys\<lparr>files := (files fsys)(output_file \<mapsto> written)\<rparr>)))"

section \<open>Reading the file back: \<^verbatim>\<open>csv.reader\<close>\<close>

text \<open>
  The program never reads its file; the reader is modelled to state what the written text
  means. It is \<^verbatim>\<open>csv.reader\<close> with the default dialect on the file opened with
  \<^verbatim>\<open>newline=''\<close>: the text is cut into lines after every line feed, carriage return, or
  carriage return followed by line feed (the line keeps its ending); the parser consumes
  the characters of a line and then an end-of-line mark, and a record is complete when the
  parser is in \<^verbatim>\<open>START_RECORD\<close> after the mark. The states and transitions are those of
  the parser without an escape character and not strict. The parser refuses to add a
  character to a field that already has \<^verbatim>\<open>csv.field_size_limit()\<close> characters, 131072
  unless the limit was changed; after an error only the error counts.
\<close>

definition field_size_limit :: nat where
  "field_size_limit = 131072"



datatype parser_state =
  START_RECORD | START_FIELD | IN_FIELD | IN_QUOTED_FIELD | QUOTE_IN_QUOTED_FIELD | EAT_CRNL

record reader =
  pstate :: parser_state
  cur :: string
  saved :: "string list"
  records :: "string list list"
  failed :: bool


definition add_char :: "char \<Rightarrow> reader \<Rightarrow> reader" where
  "add_char c r =
     (if field_size_limit \<le> length (cur r) then r\<lparr>failed := True\<rparr>
      else r\<lparr>cur := cur r @ [c]\<rparr>)"









section \<open>\<^verbatim>\<open>main\<close>\<close>

text \<open>
  The parsed command line (\<^verbatim>\<open>args.user\<close>, \<^verbatim>\<open>args.page\<close>, \<^verbatim>\<open>args.output\<close>); an option that
  was not given is \<^verbatim>\<open>None\<close>. In a condition \<^verbatim>\<open>None\<close> and the empty string are false.
\<close>

record namespace =
  arg_user :: "string option"
  arg_page :: "string option"
  arg_output :: "string option"

text \<open>The value of an option when it counts as true in a condition.\<close>

definition truthy :: "string option \<Rightarrow> string option" where
  "truthy v = (case v of None \<Rightarrow> None | Some s \<Rightarrow> if s = [] then None else Some s)"

text \<open>How the process ends: \<^verbatim>\<open>main\<close> returns, \<^verbatim>\<open>sys.exit\<close>, or an exception nobody caught.\<close>

datatype process_end = Returned | SysExit int | Uncaught py_exn

text \<open>Lines 160-162, after the history was fetched.\<close>

definition write_history ::
  "filesystem \<Rightarrow> effects \<Rightarrow> entry list \<Rightarrow> string \<Rightarrow> process_end \<times> filesystem \<times> effects" where
  "write_history fsys fx edit_history_tuples output_filename =
     (let fx1 = fx\<lparr>logged := logged fx @
                  [INFO (''fetched '' @ str_nat (length edit_history_tuples) @ '' entries''),
                   INFO (''writing to '' @ output_filename)]\<rparr>
      in case write_tuples_to_csv fsys edit_history_tuples output_filename of
           (Some e, fsys') \<Rightarrow> (Uncaught e, fsys', fx1)
         | (None, fsys') \<Rightarrow> (Returned, fsys', fx1))"

definition default_filename :: "string \<Rightarrow> string" where
  "default_filename name = ''wiki_page_'' @ name @ ''_history.csv''"

definition main ::
  "('b, 'd) libs \<Rightarrow> 'b script \<Rightarrow> filesystem \<Rightarrow> namespace
     \<Rightarrow> (process_end \<times> filesystem \<times> effects) option" where
  "main L script fsys args =
     (case (truthy (arg_page args), truthy (arg_user args)) of
        (None, None) \<Rightarrow>
          Some (SysExit 1, fsys,
                no_effects\<lparr>logged := [PRINT ''Must specify either an Editor or Page\<newline>'',
                                       PRINT_HELP]\<rparr>)
      | (Some page, Some user) \<Rightarrow>
          Some (SysExit 1, fsys,
                no_effects\<lparr>logged := [PRINT ''Must specify a user OR a Page, not both!'',
                                       PRINT_HELP]\<rparr>)
      | (Some page, None) \<Rightarrow>
          (case (case truthy (arg_output args) of
                   Some output_filename \<Rightarrow> Inr output_filename
                 | None \<Rightarrow>
                     (case title_from_url page of
                        None \<Rightarrow> Inl ()
                      | Some title \<Rightarrow> Inr (default_filename title))) of
             Inl _ \<Rightarrow>
               Some (SysExit 1, fsys,
                     no_effects\<lparr>logged := [ERROR (Str ''Could not extract title from url'')]\<rparr>)
           | Inr output_filename \<Rightarrow>
               (case get_page_history L script page [] 500 of
                  None \<Rightarrow> None
                | Some (Inl e, fx) \<Rightarrow> Some (Uncaught e, fsys, fx)
                | Some (Inr edit_history_tuples, fx) \<Rightarrow>
                    Some (write_history fsys fx edit_history_tuples output_filename)))
      | (None, Some user) \<Rightarrow>
          (let output_filename =
                 (case truthy (arg_output args) of
                    Some output_filename \<Rightarrow> output_filename
                  | None \<Rightarrow> default_filename user)
           in case get_user_edit_history L script user [] 500 of
                None \<Rightarrow> None
              | Some (edit_history_tuples, fx) \<Rightarrow>
                  Some (write_history fsys fx edit_history_tuples output_filename)))"

section \<open>What a round extracts from its page\<close>

text \<open>
  The two columns a round extracts, when its \<^verbatim>\<open>get\<close> returned and the body was parsed:
  editors and timestamps for a page history, timestamps and page titles for a user's
  contributions; \<open>None\<close> when the round raised before it had both columns.
\<close>

definition page_columns ::
  "('b, 'd) libs \<Rightarrow> py_exn + 'b response \<Rightarrow> (string list \<times> string list) option" where
  "page_columns L r =
     (case r of
        Inl e \<Rightarrow> None
      | Inr response \<Rightarrow>
          (case document_fromstring L (content response) of
             Inl e \<Rightarrow> None
           | Inr document \<Rightarrow>
               Some (xpath L document editors_query, xpath L document page_times_query)))"

definition user_columns ::
  "('b, 'd) libs \<Rightarrow> py_exn + 'b response \<Rightarrow> (string list \<times> string list) option" where
  "user_columns L r =
     (case r of
        Inl e \<Rightarrow> None
      | Inr response \<Rightarrow>
          (case raise_for_status response of
             Inl e \<Rightarrow> None
           | Inr _ \<Rightarrow>
               (case document_fromstring L (content response) of
                  Inl e \<Rightarrow> None
                | Inr document \<Rightarrow>
                    (case edit_page_titles_of (xpath L document user_titles_query) of
                       Inl e \<Rightarrow> None
                     | Inr edit_page_titles \<Rightarrow>
                         Some (xpath L document user_times_query, edit_page_titles)))))"

text \<open>The number of records of a page: the length of the shorter column.\<close>

definition record_count :: "(string list \<times> string list) option \<Rightarrow> nat" where
  "record_count c = (case c of None \<Rightarrow> 0 | Some (a, b) \<Rightarrow> min (length a) (length b))"

section \<open>A synthetic site\<close>

text \<open>
  A fixture for running the functions on concrete input: a document is the table of the
  results of its XPath queries, the HTML parser accepts everything, and the date parser
  knows two timestamps.
\<close>

type_synonym fixture_doc = "(string \<times> string list) list"

definition fixture_parse :: "string \<Rightarrow> py_exn + datetime" where
  "fixture_parse ts =
     (if ts = ''2011-05-04T13:02:00''
      then Inr \<lparr>year = 2011, month = 5, day = 4, hour = 13, minute = 2, second = 0\<rparr>
      else if ts = ''2012-06-05T14:03:01''
      then Inr \<lparr>year = 2012, month = 6, day = 5, hour = 14, minute = 3, second = 1\<rparr>
      else Inl (Exn ParserError None))"

definition fixture_libs :: "(fixture_doc, fixture_doc) libs" where
  "fixture_libs =
     \<lparr>document_fromstring = Inr,
      xpath = (\<lambda>d q. case map_of d q of None \<Rightarrow> [] | Some xs \<Rightarrow> xs),
      parse = fixture_parse\<rparr>"

text \<open>A history page, and a contributions page, with the two columns given.\<close>

definition history_page :: "int \<Rightarrow> string list \<Rightarrow> string list \<Rightarrow> py_exn + fixture_doc response" where
  "history_page status editors edit_times =
     Inr \<lparr>status_code = status,
          content = [(editors_query, editors), (page_times_query, edit_times)]\<rparr>"

definition contributions_page ::
  "int \<Rightarrow> string list \<Rightarrow> string list \<Rightarrow> py_exn + fixture_doc response" where
  "contributions_page status edit_times hrefs =
     Inr \<lparr>status_code = status,
          content = [(user_times_query, edit_times), (user_titles_query, hrefs)]\<rparr>"

section \<open>Definitions used in the statements and proofs\<close>

text \<open>A continuation that accepts in every state.\<close>

definition total_k :: "(mstate \<Rightarrow> mstate option) \<Rightarrow> bool" where
  "total_k k = (\<forall>st. k st \<noteq> None)"

text \<open>The part \<^verbatim>\<open>([^/]+)+\<close> of the pattern.\<close>

definition seg_group :: rx where
  "seg_group = Plus (Group 1 (Plus (NotLit slash)))"

text \<open>The segment that starts right after a leading slash, if any.\<close>

fun seg_here :: "string \<Rightarrow> string option" where
  "seg_here [] = None"
| "seg_here [x] = None"
| "seg_here (x # y # t) =
     (if x = slash \<and> y \<noteq> slash then Some (takeWhile (\<lambda>c. c \<noteq> slash) (y # t)) else None)"

fun last_seg :: "string \<Rightarrow> string option" where
  "last_seg [] = None"
| "last_seg (x # t) = (case last_seg t of Some r \<Rightarrow> Some r | None \<Rightarrow> seg_here (x # t))"

text \<open>The same outcome of a \<^verbatim>\<open>get\<close>, with another status code on the response.\<close>

definition restatus :: "('b response \<Rightarrow> int) \<Rightarrow> py_exn + 'b response \<Rightarrow> py_exn + 'b response" where
  "restatus f r = (case r of Inl e \<Rightarrow> Inl e | Inr resp \<Rightarrow> Inr (resp\<lparr>status_code := f resp\<rparr>))"




section \<open>Decimal numerals\<close>

lemma digit_cases: "d < 10 \<Longrightarrow> d \<in> {0, 1, 2, 3, 4, 5, 6, 7, 8, 9::nat}"
  by auto

lemma is_digit_digit_char: "d < 10 \<Longrightarrow> is_digit (digit_char d)"
  using digit_cases [of d] by (auto simp: is_digit_def digit_char_def)

lemma digit_val_digit_char: "d < 10 \<Longrightarrow> digit_val (digit_char d) = d"
  using digit_cases [of d] by (auto simp: digit_val_def digit_char_def)

lemma digit_char_zero: "d < 10 \<Longrightarrow> digit_char d = CHR ''0'' \<longleftrightarrow> d = 0"
  using digit_cases [of d] by (auto simp: digit_char_def)

lemma digit_char_digit_val: "is_digit c \<Longrightarrow> digit_char (digit_val c) = c"
proof -
  assume a: "is_digit c"
  define n where "n = (of_char c :: nat)"
  from a have "48 \<le> n" "n \<le> 57"
    unfolding is_digit_def n_def [symmetric] by simp_all
  then have "n = 48 \<or> n = 49 \<or> n = 50 \<or> n = 51 \<or> n = 52 \<or> n = 53 \<or> n = 54 \<or> n = 55
      \<or> n = 56 \<or> n = 57"
    by arith
  then have "(of_char (digit_char (n - 48)) :: nat) = n"
    by (auto simp: digit_char_def)
  then have "(of_char (digit_char (digit_val c)) :: nat) = of_char c"
    by (simp add: digit_val_def n_def)
  then show ?thesis by (simp only: of_char_eq_iff)
qed

lemma digit_val_less: "is_digit c \<Longrightarrow> digit_val c < 10"
  by (auto simp: is_digit_def digit_val_def)

lemma str_nat_digits: "list_all is_digit (str_nat n)"
proof (induction n rule: str_nat.induct)
  case (1 n)
  show ?case
  proof (cases "n < 10")
    case True
    then show ?thesis by (subst str_nat.simps) (simp add: is_digit_digit_char)
  next
    case False
    with 1 show ?thesis by (subst str_nat.simps) (simp add: is_digit_digit_char)
  qed
qed

lemma str_nat_not_Nil: "str_nat n \<noteq> []"
  by (subst str_nat.simps) simp

lemma hd_str_nat: "0 < n \<Longrightarrow> hd (str_nat n) \<noteq> CHR ''0''"
proof (induction n rule: str_nat.induct)
  case (1 n)
  show ?case
  proof (cases "n < 10")
    case True
    with 1 show ?thesis by (subst str_nat.simps) (simp add: digit_char_zero)
  next
    case False
    then have "0 < n div 10" by simp
    with 1 False show ?thesis
      by (subst str_nat.simps) (simp add: str_nat_not_Nil)
  qed
qed

lemma nat_of_digits_snoc: "nat_of_digits (s @ [c]) = 10 * nat_of_digits s + digit_val c"
  by (simp add: nat_of_digits_def)

lemma foldl_digits_ge: "a \<le> foldl (\<lambda>a c. 10 * a + digit_val c) a s"
proof (induction s arbitrary: a)
  case Nil
  then show ?case by simp
next
  case (Cons c s)
  have "a \<le> 10 * a + digit_val c" by simp
  also have "\<dots> \<le> foldl (\<lambda>a c. 10 * a + digit_val c) (10 * a + digit_val c) s"
    by (rule Cons.IH)
  finally show ?case by simp
qed

lemma nat_of_digits_pos:
  assumes "s \<noteq> []" "is_digit (hd s)" "hd s \<noteq> CHR ''0''"
  shows "0 < nat_of_digits s"
proof -
  from assms(1) obtain c t where s: "s = c # t" by (cases s) auto
  with assms have "digit_char (digit_val c) \<noteq> CHR ''0''" "digit_val c < 10"
    by (simp_all add: digit_char_digit_val digit_val_less)
  then have "0 < digit_val c" by (simp add: digit_char_zero)
  also have "digit_val c \<le> foldl (\<lambda>a c. 10 * a + digit_val c) (digit_val c) t"
    by (rule foldl_digits_ge)
  finally show ?thesis by (simp add: s nat_of_digits_def)
qed

lemma str_nat_of_digits:
  "s \<noteq> [] \<Longrightarrow> list_all is_digit s \<Longrightarrow> hd s \<noteq> CHR ''0'' \<Longrightarrow> str_nat (nat_of_digits s) = s"
proof (induction s rule: rev_induct)
  case Nil
  then show ?case by simp
next
  case (snoc c s)
  from snoc.prems have c: "is_digit c" by simp
  show ?case
  proof (cases "s = []")
    case True
    with c show ?thesis
      by (subst str_nat.simps) (simp add: nat_of_digits_def digit_val_less digit_char_digit_val)
  next
    case False
    with snoc.prems have s: "list_all is_digit s" "hd s \<noteq> CHR ''0''" by simp_all
    then have "is_digit (hd s)" using False by (cases s) simp_all
    with False s have pos: "0 < nat_of_digits s" by (intro nat_of_digits_pos)
    have d: "digit_val c < 10" using c by (rule digit_val_less)
    have "str_nat (10 * nat_of_digits s + digit_val c) =
        str_nat ((10 * nat_of_digits s + digit_val c) div 10)
        @ [digit_char ((10 * nat_of_digits s + digit_val c) mod 10)]"
      using pos by (subst str_nat.simps) simp
    also have "(10 * nat_of_digits s + digit_val c) div 10 = nat_of_digits s"
      using d by simp
    also have "(10 * nat_of_digits s + digit_val c) mod 10 = digit_val c"
      using d by simp
    finally show ?thesis
      using snoc.IH [OF False s] c by (simp add: nat_of_digits_snoc digit_char_digit_val)
  qed
qed

lemma zfill_digits: "list_all is_digit s \<Longrightarrow> list_all is_digit (zfill w s)"
  by (auto simp: zfill_def is_digit_def list_all_iff)

lemma strftime_digits: "list_all is_digit (strftime_YmdHMS d)"
  by (simp add: strftime_YmdHMS_def zfill_digits str_nat_digits)

lemma strftime_not_Nil: "strftime_YmdHMS d \<noteq> []"
  by (simp add: strftime_YmdHMS_def zfill_def str_nat_not_Nil)

lemma py_int_strftime:
  "py_int (strftime_YmdHMS d) = Inr (int (nat_of_digits (strftime_YmdHMS d)))"
  by (simp add: py_int_def strftime_digits strftime_not_Nil)

lemma length_str_nat_4: "1000 \<le> n \<Longrightarrow> 4 \<le> length (str_nat n)"
proof -
  assume n: "1000 \<le> n"
  then have "\<not> n < 10" "\<not> n div 10 < 10" "\<not> n div 10 div 10 < 10" by simp_all
  then show ?thesis
    by (subst str_nat.simps, simp, subst str_nat.simps, simp, subst str_nat.simps,
        simp add: Suc_le_eq str_nat_not_Nil)
qed

lemma hd_strftime: "1000 \<le> year d \<Longrightarrow> hd (strftime_YmdHMS d) \<noteq> CHR ''0''"
proof -
  assume y: "1000 \<le> year d"
  then have "zfill 4 (str_nat (year d)) = str_nat (year d)"
    using length_str_nat_4 [of "year d"] by (simp add: zfill_def)
  moreover have "hd (str_nat (year d)) \<noteq> CHR ''0''"
    using y by (intro hd_str_nat) simp
  ultimately show ?thesis
    by (simp add: strftime_YmdHMS_def str_nat_not_Nil)
qed

lemma offset_is_strftime:
  "1000 \<le> year d \<Longrightarrow> str_int (int (nat_of_digits (strftime_YmdHMS d))) = strftime_YmdHMS d"
  by (simp add: str_int_def str_nat_of_digits strftime_digits strftime_not_Nil hd_strftime)

lemma next_offset_parsed:
  "edit_times \<noteq> [] \<Longrightarrow> parse L (last edit_times) = Inr d \<Longrightarrow>
   next_offset L edit_times = Inr (str_int (int (nat_of_digits (strftime_YmdHMS d))))"
  by (simp add: next_offset_def py_last_def py_int_strftime)

lemma strftime_example:
  "strftime_YmdHMS \<lparr>year = 2011, month = 5, day = 4, hour = 13, minute = 2, second = 0\<rparr>
     = ''20110504130200''"
  by (simp add: strftime_YmdHMS_def zfill_def str_nat.simps digit_char_def)

section \<open>Title recovery: what the pattern computes\<close>

text \<open>
  The matcher is characterised in three steps: \<^verbatim>\<open>[^/]+\<close> in front of a continuation
  that cannot fail takes the longest run of non-slash characters; \<^verbatim>\<open>.*\<close> on a text
  without line feeds tries every split point from the right; so the search returns the
  segment after the last slash that is followed by a non-slash character.
\<close>

declare rx_match.simps [simp del]

lemmas rx_simps = rx_match.simps

lemma star_total: "total_k k \<Longrightarrow> rx_match (Star r) k st \<noteq> None"
  by (cases st) (auto simp: total_k_def rx_simps split: option.splits)

lemma star_notlit:
  "total_k k \<Longrightarrow> rx_match (Star (NotLit c)) k (s, g) = k (dropWhile (\<lambda>x. x \<noteq> c) s, g)"
proof (induction s)
  case Nil
  then show ?case by (simp add: rx_simps)
next
  case (Cons x t)
  show ?case
  proof (cases "x = c")
    case True
    then show ?thesis by (simp add: rx_simps)
  next
    case False
    have "k (dropWhile (\<lambda>x. x \<noteq> c) t, g) \<noteq> None"
      using Cons.prems by (simp add: total_k_def)
    with False Cons show ?thesis
      by (subst rx_simps(6)) (auto simp: rx_simps(3) split: option.splits)
  qed
qed

lemma take_span: "take (length s - length (dropWhile P s)) s = takeWhile P s"
proof -
  have "length (takeWhile P s @ dropWhile P s) = length (takeWhile P s) + length (dropWhile P s)"
    by (rule length_append)
  then have "length s = length (takeWhile P s) + length (dropWhile P s)"
    by (simp only: takeWhile_dropWhile_id)
  then have "length s - length (dropWhile P s) = length (takeWhile P s)"
    by simp
  then show ?thesis by (simp add: takeWhile_eq_take [symmetric])
qed

lemma group_fails:
  "s = [] \<or> hd s = slash \<Longrightarrow> rx_match (Group n (Plus (NotLit slash))) k (s, g) = None"
  by (cases s) (auto simp: rx_simps(3,5,7))

lemma star_group_stops:
  "s = [] \<or> hd s = slash \<Longrightarrow>
   rx_match (Star (Group n (Plus (NotLit slash)))) k (s, g) = k (s, g)"
  by (subst rx_simps(6)) (simp add: group_fails)

lemma seg_group_match:
  assumes "total_k k"
  shows "rx_match seg_group k (s, g) =
    (case s of [] \<Rightarrow> None
     | x # t \<Rightarrow> if x = slash then None
                else k (dropWhile (\<lambda>c. c \<noteq> slash) s, g(1 \<mapsto> takeWhile (\<lambda>c. c \<noteq> slash) s)))"
proof (cases s)
  case Nil
  then show ?thesis by (simp add: seg_group_def rx_simps(3,5,7))
next
  case (Cons x t)
  show ?thesis
  proof (cases "x = slash")
    case True
    with Cons show ?thesis by (simp add: seg_group_def rx_simps(3,5,7))
  next
    case False
    let ?G = "Group 1 (Plus (NotLit slash))"
    let ?d = "dropWhile (\<lambda>c. c \<noteq> slash) s"
    let ?k2 = "\<lambda>st'. rx_match (Star ?G) k st'"
    let ?k1 = "\<lambda>st'. ?k2 (fst st', (snd st')(1 \<mapsto> take (length s - length (fst st')) s))"
    have t2: "total_k ?k2"
      using assms star_total by (simp add: total_k_def)
    then have t1: "total_k ?k1"
      by (simp add: total_k_def)
    have d: "?d = dropWhile (\<lambda>c. c \<noteq> slash) t"
      using Cons False by simp
    have stop: "?d = [] \<or> hd ?d = slash"
      using hd_dropWhile [of "\<lambda>c. c \<noteq> slash" s] by auto
    have "rx_match seg_group k (s, g) = rx_match (Star (NotLit slash)) ?k1 (t, g)"
      using Cons False by (simp add: seg_group_def rx_simps(3,5,7))
    also have "\<dots> = ?k1 (?d, g)"
      using t1 by (simp add: star_notlit d)
    also have "\<dots> = rx_match (Star ?G) k (?d, g(1 \<mapsto> takeWhile (\<lambda>c. c \<noteq> slash) s))"
      by (simp add: take_span)
    also have "\<dots> = k (?d, g(1 \<mapsto> takeWhile (\<lambda>c. c \<noteq> slash) s))"
      using stop by (rule star_group_stops)
    finally show ?thesis using Cons False by simp
  qed
qed

lemma star_dot_rec:
  "rx_match (Star Dot) k (s, g) =
    (case s of [] \<Rightarrow> k ([], g)
     | x # t \<Rightarrow> if x = newline then k (s, g)
                else (case rx_match (Star Dot) k (t, g) of Some m \<Rightarrow> Some m | None \<Rightarrow> k (s, g)))"
  by (subst rx_simps(6)) (simp add: rx_simps(1) split: list.splits)

lemma tail_match:
  "map_option (\<lambda>m. snd m 1) (rx_match (Seq (Lit slash) seg_group) Some (s, g)) =
     map_option Some (seg_here s)"
proof -
  have "total_k Some" by (simp add: total_k_def)
  then show ?thesis
    by (cases s rule: seg_here.cases) (simp_all add: seg_group_match rx_simps(2,4))
qed

lemma title_pattern_match:
  "newline \<notin> set s \<Longrightarrow>
   map_option (\<lambda>m. snd m 1) (rx_match title_pattern Some (s, g)) = map_option Some (last_seg s)"
proof (induction s)
  case Nil
  have "rx_match title_pattern Some ([], g) = rx_match (Seq (Lit slash) seg_group) Some ([], g)"
    by (simp add: title_pattern_def seg_group_def rx_simps(4) [of "Star Dot"] star_dot_rec)
  then show ?case using tail_match [of "[]" g] by simp
next
  case (Cons x t)
  let ?K = "\<lambda>st'. rx_match (Seq (Lit slash) seg_group) Some st'"
  have unf: "\<And>u. rx_match title_pattern Some (u, g) = rx_match (Star Dot) ?K (u, g)"
    by (simp add: title_pattern_def seg_group_def rx_simps(4) [of "Star Dot"])
  have IH: "map_option (\<lambda>m. snd m 1) (rx_match (Star Dot) ?K (t, g)) = map_option Some (last_seg t)"
    using Cons unf by simp
  have x: "x \<noteq> newline" using Cons.prems by auto
  have step: "rx_match (Star Dot) ?K (x # t, g) =
      (case rx_match (Star Dot) ?K (t, g) of Some m \<Rightarrow> Some m | None \<Rightarrow> ?K (x # t, g))"
    using x by (subst star_dot_rec) simp
  show ?case
  proof (cases "rx_match (Star Dot) ?K (t, g)")
    case None
    then have "last_seg t = None" using IH by simp
    then show ?thesis
      using None step unf tail_match [of "x # t" g] by simp
  next
    case (Some m)
    then have "map_option Some (last_seg t) = Some (snd m 1)"
      and *: "rx_match (Star Dot) ?K (x # t, g) = Some m"
      using IH step by simp_all
    then obtain r where "last_seg t = Some r" "snd m 1 = Some r"
      by (cases "last_seg t") auto
    with * show ?thesis using unf by simp
  qed
qed

lemma last_seg_tl: "last_seg (x # t) = None \<Longrightarrow> last_seg t = None"
  by (simp split: option.splits)

lemma re_search_title:
  "newline \<notin> set s \<Longrightarrow>
   map_option (\<lambda>g. g 1) (re_search title_pattern s) = map_option Some (last_seg s)"
proof (induction s)
  case Nil
  then show ?case
    using title_pattern_match [of "[]" Map.empty]
    by (cases "rx_match title_pattern Some ([], Map.empty)") simp_all
next
  case (Cons x t)
  show ?case
  proof (cases "rx_match title_pattern Some (x # t, Map.empty)")
    case None
    then have "last_seg (x # t) = None"
      using title_pattern_match [of "x # t" Map.empty] Cons.prems by simp
    then show ?thesis
      using None Cons last_seg_tl [of x t] by simp
  next
    case (Some m)
    then show ?thesis
      using title_pattern_match [of "x # t" Map.empty] Cons.prems by simp
  qed
qed

lemma title_from_url_last_seg:
  assumes "newline \<notin> set url"
  shows "title_from_url url = last_seg url"
  using re_search_title [OF assms]
  by (cases "re_search title_pattern url"; cases "last_seg url") (auto simp: title_from_url_def)

lemma seg_here_Some:
  "seg_here s = Some seg \<longleftrightarrow>
     seg \<noteq> [] \<and> slash \<notin> set seg \<and> (\<exists>r. s = slash # seg @ r \<and> (r = [] \<or> hd r = slash))"
proof
  assume a: "seg_here s = Some seg"
  then obtain y t where s: "s = slash # y # t" and y: "y \<noteq> slash"
    and seg: "seg = takeWhile (\<lambda>c. c \<noteq> slash) (y # t)"
    by (cases s rule: seg_here.cases) (auto split: if_splits)
  let ?r = "dropWhile (\<lambda>c. c \<noteq> slash) (y # t)"
  have "s = slash # seg @ ?r"
    unfolding s seg by (simp only: takeWhile_dropWhile_id)
  moreover have "?r = [] \<or> hd ?r = slash"
    using hd_dropWhile [of "\<lambda>c. c \<noteq> slash" "y # t"] by auto
  moreover have "seg \<noteq> []" using seg y by simp
  moreover have "slash \<notin> set seg"
    unfolding seg using set_takeWhileD [of slash "\<lambda>c. c \<noteq> slash" "y # t"] by auto
  ultimately show "seg \<noteq> [] \<and> slash \<notin> set seg
      \<and> (\<exists>r. s = slash # seg @ r \<and> (r = [] \<or> hd r = slash))"
    by blast
next
  assume "seg \<noteq> [] \<and> slash \<notin> set seg
      \<and> (\<exists>r. s = slash # seg @ r \<and> (r = [] \<or> hd r = slash))"
  then obtain r y t where s: "s = slash # seg @ r" and r: "r = [] \<or> hd r = slash"
    and seg: "seg = y # t" and ns: "slash \<notin> set seg"
    by (cases seg) auto
  have "takeWhile (\<lambda>c. c \<noteq> slash) r = []"
    using r by (cases r) auto
  moreover have "takeWhile (\<lambda>c. c \<noteq> slash) (seg @ r) = seg @ takeWhile (\<lambda>c. c \<noteq> slash) r"
    using ns by (intro takeWhile_append2) auto
  ultimately have "takeWhile (\<lambda>c. c \<noteq> slash) (seg @ r) = seg" by simp
  then show "seg_here s = Some seg"
    using s seg ns by auto
qed

lemma last_seg_slashes: "set sl \<subseteq> {slash} \<Longrightarrow> last_seg sl = None"
proof (induction sl)
  case Nil
  then show ?case by simp
next
  case (Cons x sl)
  then show ?case by (cases sl) auto
qed

lemma last_seg_no_slash:
  "slash \<notin> set seg \<Longrightarrow> set sl \<subseteq> {slash} \<Longrightarrow> last_seg (seg @ sl) = None"
proof (induction seg)
  case Nil
  then show ?case by (simp add: last_seg_slashes)
next
  case (Cons y seg)
  then have "last_seg (seg @ sl) = None" by simp
  moreover have "seg_here (y # seg @ sl) = None"
    using Cons.prems by (cases "seg @ sl") auto
  ultimately show ?case by simp
qed

lemma last_seg_suffix: "last_seg (a @ b) = None \<Longrightarrow> last_seg b = None"
  by (induction a) (auto split: option.splits)

lemma last_seg_after_slash: "last_seg (slash # r) = None \<Longrightarrow> set r \<subseteq> {slash}"
proof (induction r)
  case Nil
  then show ?case by simp
next
  case (Cons y r)
  from Cons.prems have t: "last_seg (y # r) = None"
    by (rule last_seg_tl)
  from Cons.prems have "y = slash"
    by (auto split: option.splits if_splits)
  with t Cons.IH show ?case by simp
qed

lemma last_seg_Some:
  "last_seg s = Some seg \<longleftrightarrow>
     seg \<noteq> [] \<and> slash \<notin> set seg \<and> (\<exists>pre sl. s = pre @ slash # seg @ sl \<and> set sl \<subseteq> {slash})"
proof
  show "last_seg s = Some seg \<Longrightarrow>
     seg \<noteq> [] \<and> slash \<notin> set seg \<and> (\<exists>pre sl. s = pre @ slash # seg @ sl \<and> set sl \<subseteq> {slash})"
  proof (induction s)
    case Nil
    then show ?case by simp
  next
    case (Cons x t)
    show ?case
    proof (cases "last_seg t")
      case (Some r)
      with Cons.prems have "last_seg t = Some seg" by simp
      with Cons.IH obtain pre sl where "seg \<noteq> []" "slash \<notin> set seg"
        "t = pre @ slash # seg @ sl" "set sl \<subseteq> {slash}" by blast
      then have "x # t = (x # pre) @ slash # seg @ sl" by simp
      with \<open>seg \<noteq> []\<close> \<open>slash \<notin> set seg\<close> \<open>set sl \<subseteq> {slash}\<close> show ?thesis by blast
    next
      case None
      with Cons.prems have "seg_here (x # t) = Some seg" by simp
      then obtain r where seg: "seg \<noteq> []" "slash \<notin> set seg"
        and xt: "x # t = slash # seg @ r" and r: "r = [] \<or> hd r = slash"
        unfolding seg_here_Some by blast
      from xt None have "last_seg (seg @ r) = None" by simp
      then have lr: "last_seg r = None" by (rule last_seg_suffix)
      have "set r \<subseteq> {slash}"
      proof (cases r)
        case Nil
        then show ?thesis by simp
      next
        case (Cons z r')
        with r have "z = slash" by simp
        with lr Cons last_seg_after_slash [of r'] show ?thesis by simp
      qed
      with xt have "x # t = [] @ slash # seg @ r \<and> set r \<subseteq> {slash}" by simp
      with seg show ?thesis by blast
    qed
  qed
next
  assume "seg \<noteq> [] \<and> slash \<notin> set seg \<and> (\<exists>pre sl. s = pre @ slash # seg @ sl \<and> set sl \<subseteq> {slash})"
  then obtain pre sl where seg: "seg \<noteq> []" "slash \<notin> set seg"
    and s: "s = pre @ slash # seg @ sl" and sl: "set sl \<subseteq> {slash}" by blast
  have here: "seg_here (slash # seg @ sl) = Some seg"
  proof -
    have "sl = [] \<or> hd sl = slash" using sl by (cases sl) auto
    then show ?thesis unfolding seg_here_Some using seg by blast
  qed
  have "last_seg (seg @ sl) = None"
    using seg(2) sl by (rule last_seg_no_slash)
  with here have base: "last_seg (slash # seg @ sl) = Some seg" by simp
  have "last_seg (pre @ slash # seg @ sl) = Some seg"
    using base by (induction pre) simp_all
  then show "last_seg s = Some seg" using s by simp
qed


lemma last_seg_decomp:
  "seg \<noteq> [] \<Longrightarrow> slash \<notin> set seg \<Longrightarrow> set sl \<subseteq> {slash} \<Longrightarrow>
   last_seg (pre @ slash # seg @ sl) = Some seg"
  unfolding last_seg_Some by blast

text \<open>
  Claim C7. Title recovery maps a URL to its last slash-delimited non-empty path segment:
  on a URL (a text without line feed) the result is \<open>seg\<close> exactly when \<open>seg\<close> is
  non-empty, has no slash, follows a slash and is followed by slashes only. The URL
  \<^verbatim>\<open>https://en.wikipedia.org/wiki/A_Troublesome_Inheritance\<close> yields
  \<^verbatim>\<open>A_Troublesome_Inheritance\<close>, and every contribution link that ends in
  \<^verbatim>\<open>/wiki/Some_Page\<close> yields \<^verbatim>\<open>Some_Page\<close>.
\<close>

theorem title_recovery_last_segment:
  "(newline \<notin> set url \<longrightarrow>
      (title_from_url url = Some seg \<longleftrightarrow>
         seg \<noteq> [] \<and> slash \<notin> set seg
         \<and> (\<exists>pre sl. url = pre @ slash # seg @ sl \<and> set sl \<subseteq> {slash})))
   \<and> title_from_url ''https://en.wikipedia.org/wiki/A_Troublesome_Inheritance''
       = Some ''A_Troublesome_Inheritance''
   \<and> (newline \<notin> set link \<longrightarrow> title_from_url (link @ ''/wiki/Some_Page'') = Some ''Some_Page'')"
proof (intro conjI impI)
  assume "newline \<notin> set url"
  then have "title_from_url url = last_seg url"
    by (rule title_from_url_last_seg)
  then show "title_from_url url = Some seg \<longleftrightarrow>
         seg \<noteq> [] \<and> slash \<notin> set seg
         \<and> (\<exists>pre sl. url = pre @ slash # seg @ sl \<and> set sl \<subseteq> {slash})"
    by (simp only: last_seg_Some)
next
  have nl: "newline \<notin> set ''https://en.wikipedia.org/wiki/A_Troublesome_Inheritance''"
    by (simp add: newline_def)
  have "last_seg (''https://en.wikipedia.org/wiki'' @ slash # ''A_Troublesome_Inheritance'' @ [])
      = Some ''A_Troublesome_Inheritance''"
    by (rule last_seg_decomp) simp_all
  then show "title_from_url ''https://en.wikipedia.org/wiki/A_Troublesome_Inheritance''
       = Some ''A_Troublesome_Inheritance''"
    using title_from_url_last_seg [OF nl] by simp
next
  assume l: "newline \<notin> set link"
  then have nl: "newline \<notin> set (link @ ''/wiki/Some_Page'')"
    by (simp add: newline_def)
  have "last_seg ((link @ ''/wiki'') @ slash # ''Some_Page'' @ []) = Some ''Some_Page''"
    by (rule last_seg_decomp) simp_all
  then show "title_from_url (link @ ''/wiki/Some_Page'') = Some ''Some_Page''"
    using title_from_url_last_seg [OF nl] by simp
qed

theorem title_recovery_last_segment_witness:
  "newline \<notin> set ''https://en.wikipedia.org/wiki/Foo/''
   \<and> title_from_url ''https://en.wikipedia.org/wiki/Foo/'' = Some ''Foo''
   \<and> newline \<notin> set ''https://en.wikipedia.org''
   \<and> title_from_url (''https://en.wikipedia.org'' @ ''/wiki/Some_Page'') = Some ''Some_Page''"
proof -
  have nl: "newline \<notin> set ''https://en.wikipedia.org/wiki/Foo/''"
    and nl2: "newline \<notin> set ''https://en.wikipedia.org''"
    by (simp_all add: newline_def)
  have "\<exists>pre sl. ''https://en.wikipedia.org/wiki/Foo/'' = pre @ slash # ''Foo'' @ sl \<and> set sl \<subseteq> {slash}"
    by (intro exI [of _ "''https://en.wikipedia.org/wiki''"] exI [of _ "''/''"]) simp
  then have d: "''Foo'' \<noteq> [] \<and> slash \<notin> set ''Foo''
    \<and> (\<exists>pre sl. ''https://en.wikipedia.org/wiki/Foo/'' = pre @ slash # ''Foo'' @ sl \<and> set sl \<subseteq> {slash})"
    by simp
  have t: "newline \<notin> set ''https://en.wikipedia.org/wiki/Foo/'' \<longrightarrow>
      (title_from_url ''https://en.wikipedia.org/wiki/Foo/'' = Some ''Foo'' \<longleftrightarrow>
         ''Foo'' \<noteq> [] \<and> slash \<notin> set ''Foo''
         \<and> (\<exists>pre sl. ''https://en.wikipedia.org/wiki/Foo/'' = pre @ slash # ''Foo'' @ sl \<and> set sl \<subseteq> {slash}))"
    and t2: "newline \<notin> set ''https://en.wikipedia.org'' \<longrightarrow>
      title_from_url (''https://en.wikipedia.org'' @ ''/wiki/Some_Page'') = Some ''Some_Page''"
    using title_recovery_last_segment
      [of "''https://en.wikipedia.org/wiki/Foo/''" "''Foo''" "''https://en.wikipedia.org''"]
    by (rule conjunct1, rule conjunct2 [THEN conjunct2])
  have a: "title_from_url ''https://en.wikipedia.org/wiki/Foo/'' = Some ''Foo''"
    using t [rule_format, OF nl] d by (rule iffD2)
  have b: "title_from_url (''https://en.wikipedia.org'' @ ''/wiki/Some_Page'') = Some ''Some_Page''"
    using t2 [rule_format, OF nl2] .
  show ?thesis
    by (intro conjI nl nl2 a b)
qed


section \<open>The pagination loops: rounds, prefixes and returns\<close>

subsection \<open>Page history\<close>

lemma length_page_entries_of [simp]:
  "length (page_entries_of title a b) = min (length a) (length b)"
  by (simp add: page_entries_of_def)

lemma page_body_columns:
  "page_columns L r = Some (editors, edit_times) \<Longrightarrow>
   page_body L title limit r =
     (if int (min (length editors) (length edit_times)) < limit
      then Break (page_entries_of title editors edit_times)
      else (case next_offset L edit_times of
              Inl e \<Rightarrow> Raised (page_entries_of title editors edit_times) e
            | Inr offset \<Rightarrow> Continue (page_entries_of title editors edit_times) offset))"
  by (auto simp: page_columns_def page_body_def Let_def split: sum.splits)

lemma page_body_no_columns:
  "page_columns L r = None \<Longrightarrow> \<exists>e. page_body L title limit r = Raised [] e"
  by (auto simp: page_columns_def page_body_def split: sum.splits)

lemma appended_page_body:
  "appended (page_body L title limit r) =
     (case page_columns L r of None \<Rightarrow> [] | Some (a, b) \<Rightarrow> page_entries_of title a b)"
proof (cases "page_columns L r")
  case None
  then show ?thesis using page_body_no_columns [OF None, of title limit] by auto
next
  case (Some c)
  then show ?thesis
    by (cases c) (auto simp: page_body_columns split: sum.splits)
qed

lemma length_appended_page_body:
  "length (appended (page_body L title limit r)) = record_count (page_columns L r)"
  by (simp add: appended_page_body record_count_def split: option.splits)

lemma requests_page_except [simp]: "requests (page_except e fx) = requests fx"
  by (simp add: page_except_def)

lemma page_loop_returns:
  "page_history_loop L title limit script offset url all_entries fx = Some (out, fx') \<Longrightarrow>
   \<exists>n. 0 < n \<and> n \<le> length script
     \<and> length (requests fx') = length (requests fx) + n
     \<and> out = all_entries @ concat (map (\<lambda>r. appended (page_body L title limit r)) (take n script))
     \<and> (\<forall>r\<in>set (take (n - 1) script). continues (page_body L title limit r))
     \<and> \<not> continues (page_body L title limit (script ! (n - 1)))"
proof (induction script arbitrary: offset url all_entries fx)
  case Nil
  then show ?case by simp
next
  case (Cons r script)
  let ?fx1 = "fx\<lparr>logged := logged fx @ page_info title limit offset url,
                   requests := requests fx @ [url]\<rparr>"
  show ?case
  proof (cases "page_body L title limit r")
    case (Break es)
    with Cons.prems have "out = all_entries @ es" "fx' = ?fx1" by simp_all
    with Break show ?thesis by (intro exI [of _ 1]) simp
  next
    case (Raised es e)
    with Cons.prems have "out = all_entries @ es" "fx' = page_except e ?fx1" by simp_all
    with Raised show ?thesis by (intro exI [of _ 1]) simp
  next
    case (Continue es off)
    with Cons.prems have "page_history_loop L title limit script off (history_url title off limit)
        (all_entries @ es) ?fx1 = Some (out, fx')" by simp
    from Cons.IH [OF this] obtain n where n: "0 < n" "n \<le> length script"
      "length (requests fx') = length (requests ?fx1) + n"
      "out = (all_entries @ es) @ concat (map (\<lambda>r. appended (page_body L title limit r)) (take n script))"
      "\<forall>r\<in>set (take (n - 1) script). continues (page_body L title limit r)"
      "\<not> continues (page_body L title limit (script ! (n - 1)))"
      by blast
    from n(1) obtain m where m: "n = Suc m" by (cases n) auto
    show ?thesis
    proof (intro exI [of _ "Suc n"] conjI)
      show "\<forall>r\<in>set (take (Suc n - 1) (r # script)). continues (page_body L title limit r)"
        using n(5) Continue m by auto
      show "\<not> continues (page_body L title limit ((r # script) ! (Suc n - 1)))"
        using n(6) m by simp
    qed (use n Continue in simp_all)
  qed
qed

lemma page_loop_prefix:
  "\<forall>r\<in>set full. continues (page_body L title limit r) \<Longrightarrow>
   \<exists>offset' url' fx'.
     page_history_loop L title limit (full @ script) offset url all_entries fx =
       page_history_loop L title limit script offset' url'
         (all_entries @ concat (map (\<lambda>r. appended (page_body L title limit r)) full)) fx'
     \<and> length (requests fx') = length (requests fx) + length full
     \<and> (if full = [] then offset' = offset \<and> url' = url \<and> fx' = fx
         else (\<exists>es. page_body L title limit (last full) = Continue es offset')
              \<and> url' = history_url title offset' limit)"
proof (induction full arbitrary: offset url all_entries fx)
  case Nil
  then show ?case by simp
next
  case (Cons r full)
  from Cons.prems obtain es off where r: "page_body L title limit r = Continue es off"
    by (cases "page_body L title limit r") auto
  let ?fx1 = "fx\<lparr>logged := logged fx @ page_info title limit offset url,
                   requests := requests fx @ [url]\<rparr>"
  have step: "page_history_loop L title limit ((r # full) @ script) offset url all_entries fx =
      page_history_loop L title limit (full @ script) off (history_url title off limit)
        (all_entries @ es) ?fx1"
    using r by simp
  from Cons.prems have "\<forall>r\<in>set full. continues (page_body L title limit r)" by simp
  from Cons.IH [OF this, of off "history_url title off limit" "all_entries @ es" ?fx1]
  obtain offset' url' fx' where
    1: "page_history_loop L title limit (full @ script) off (history_url title off limit)
         (all_entries @ es) ?fx1 =
       page_history_loop L title limit script offset' url'
         ((all_entries @ es) @ concat (map (\<lambda>r. appended (page_body L title limit r)) full)) fx'"
    and 2: "length (requests fx') = length (requests ?fx1) + length full"
    and 3: "(if full = [] then offset' = off \<and> url' = history_url title off limit \<and> fx' = ?fx1
         else (\<exists>es. page_body L title limit (last full) = Continue es offset')
              \<and> url' = history_url title offset' limit)"
    by blast
  have "page_history_loop L title limit ((r # full) @ script) offset url all_entries fx =
       page_history_loop L title limit script offset' url'
         (all_entries @ concat (map (\<lambda>r. appended (page_body L title limit r)) (r # full))) fx'"
    using step 1 r by simp
  moreover have "length (requests fx') = length (requests fx) + length (r # full)"
    using 2 by simp
  moreover have "if r # full = [] then offset' = offset \<and> url' = url \<and> fx' = fx
         else (\<exists>es. page_body L title limit (last (r # full)) = Continue es offset')
              \<and> url' = history_url title offset' limit"
    using 3 r by (cases "full = []") auto
  ultimately show ?case by blast
qed

subsection \<open>User contributions\<close>

lemma length_user_entries_of [simp]:
  "length (user_entries_of username a b) = min (length a) (length b)"
  by (simp add: user_entries_of_def)

lemma user_body_columns:
  "user_columns L r = Some (edit_times, edit_page_titles) \<Longrightarrow>
   user_body L username limit r =
     (if int (min (length edit_times) (length edit_page_titles)) < limit
      then Break (user_entries_of username edit_times edit_page_titles)
      else (case next_offset L edit_times of
              Inl e \<Rightarrow> Raised (user_entries_of username edit_times edit_page_titles) e
            | Inr offset \<Rightarrow> Continue (user_entries_of username edit_times edit_page_titles) offset))"
  by (auto simp: user_columns_def user_body_def Let_def split: sum.splits)

lemma user_body_no_columns:
  "user_columns L r = None \<Longrightarrow> \<exists>e. user_body L username limit r = Raised [] e"
  by (auto simp: user_columns_def user_body_def split: sum.splits)

lemma appended_user_body:
  "appended (user_body L username limit r) =
     (case user_columns L r of None \<Rightarrow> [] | Some (a, b) \<Rightarrow> user_entries_of username a b)"
proof (cases "user_columns L r")
  case None
  then show ?thesis using user_body_no_columns [OF None, of username limit] by auto
next
  case (Some c)
  then show ?thesis
    by (cases c) (auto simp: user_body_columns split: sum.splits)
qed

lemma length_appended_user_body:
  "length (appended (user_body L username limit r)) = record_count (user_columns L r)"
  by (simp add: appended_user_body record_count_def split: option.splits)

lemma requests_user_except [simp]: "requests (user_except e fx) = requests fx"
  by (simp add: user_except_def)

lemma user_loop_returns:
  "user_history_loop L username limit script offset url all_entries fx = Some (out, fx') \<Longrightarrow>
   \<exists>n. 0 < n \<and> n \<le> length script
     \<and> length (requests fx') = length (requests fx) + n
     \<and> out = all_entries @ concat (map (\<lambda>r. appended (user_body L username limit r)) (take n script))
     \<and> (\<forall>r\<in>set (take (n - 1) script). continues (user_body L username limit r))
     \<and> \<not> continues (user_body L username limit (script ! (n - 1)))"
proof (induction script arbitrary: offset url all_entries fx)
  case Nil
  then show ?case by simp
next
  case (Cons r script)
  let ?fx1 = "fx\<lparr>logged := logged fx @ user_info username limit offset url,
                   requests := requests fx @ [url]\<rparr>"
  show ?case
  proof (cases "user_body L username limit r")
    case (Break es)
    with Cons.prems have "out = all_entries @ es" "fx' = ?fx1" by simp_all
    with Break show ?thesis by (intro exI [of _ 1]) simp
  next
    case (Raised es e)
    with Cons.prems have "out = all_entries @ es" "fx' = user_except e ?fx1" by simp_all
    with Raised show ?thesis by (intro exI [of _ 1]) simp
  next
    case (Continue es off)
    with Cons.prems have "user_history_loop L username limit script off (contributions_url_of username limit off)
        (all_entries @ es) ?fx1 = Some (out, fx')" by simp
    from Cons.IH [OF this] obtain n where n: "0 < n" "n \<le> length script"
      "length (requests fx') = length (requests ?fx1) + n"
      "out = (all_entries @ es) @ concat (map (\<lambda>r. appended (user_body L username limit r)) (take n script))"
      "\<forall>r\<in>set (take (n - 1) script). continues (user_body L username limit r)"
      "\<not> continues (user_body L username limit (script ! (n - 1)))"
      by blast
    from n(1) obtain m where m: "n = Suc m" by (cases n) auto
    show ?thesis
    proof (intro exI [of _ "Suc n"] conjI)
      show "\<forall>r\<in>set (take (Suc n - 1) (r # script)). continues (user_body L username limit r)"
        using n(5) Continue m by auto
      show "\<not> continues (user_body L username limit ((r # script) ! (Suc n - 1)))"
        using n(6) m by simp
    qed (use n Continue in simp_all)
  qed
qed

lemma user_loop_prefix:
  "\<forall>r\<in>set full. continues (user_body L username limit r) \<Longrightarrow>
   \<exists>offset' url' fx'.
     user_history_loop L username limit (full @ script) offset url all_entries fx =
       user_history_loop L username limit script offset' url'
         (all_entries @ concat (map (\<lambda>r. appended (user_body L username limit r)) full)) fx'
     \<and> length (requests fx') = length (requests fx) + length full
     \<and> (if full = [] then offset' = offset \<and> url' = url \<and> fx' = fx
         else (\<exists>es. user_body L username limit (last full) = Continue es offset')
              \<and> url' = contributions_url_of username limit offset')"
proof (induction full arbitrary: offset url all_entries fx)
  case Nil
  then show ?case by simp
next
  case (Cons r full)
  from Cons.prems obtain es off where r: "user_body L username limit r = Continue es off"
    by (cases "user_body L username limit r") auto
  let ?fx1 = "fx\<lparr>logged := logged fx @ user_info username limit offset url,
                   requests := requests fx @ [url]\<rparr>"
  have step: "user_history_loop L username limit ((r # full) @ script) offset url all_entries fx =
      user_history_loop L username limit (full @ script) off (contributions_url_of username limit off)
        (all_entries @ es) ?fx1"
    using r by simp
  from Cons.prems have "\<forall>r\<in>set full. continues (user_body L username limit r)" by simp
  from Cons.IH [OF this, of off "contributions_url_of username limit off" "all_entries @ es" ?fx1]
  obtain offset' url' fx' where
    1: "user_history_loop L username limit (full @ script) off (contributions_url_of username limit off)
         (all_entries @ es) ?fx1 =
       user_history_loop L username limit script offset' url'
         ((all_entries @ es) @ concat (map (\<lambda>r. appended (user_body L username limit r)) full)) fx'"
    and 2: "length (requests fx') = length (requests ?fx1) + length full"
    and 3: "(if full = [] then offset' = off \<and> url' = contributions_url_of username limit off \<and> fx' = ?fx1
         else (\<exists>es. user_body L username limit (last full) = Continue es offset')
              \<and> url' = contributions_url_of username limit offset')"
    by blast
  have "user_history_loop L username limit ((r # full) @ script) offset url all_entries fx =
       user_history_loop L username limit script offset' url'
         (all_entries @ concat (map (\<lambda>r. appended (user_body L username limit r)) (r # full))) fx'"
    using step 1 r by simp
  moreover have "length (requests fx') = length (requests fx) + length (r # full)"
    using 2 by simp
  moreover have "if r # full = [] then offset' = offset \<and> url' = url \<and> fx' = fx
         else (\<exists>es. user_body L username limit (last (r # full)) = Continue es offset')
              \<and> url' = contributions_url_of username limit offset'"
    using 3 r by (cases "full = []") auto
  ultimately show ?case by blast
qed

subsection \<open>Page history: short pages, raising rounds, the requests sent\<close>

lemma continues_page_body:
  "continues (page_body L title limit p) \<longleftrightarrow>
     (\<exists>a b off. page_columns L p = Some (a, b) \<and> \<not> int (min (length a) (length b)) < limit
        \<and> next_offset L b = Inr off)"
proof (cases "page_columns L p")
  case None
  then show ?thesis using page_body_no_columns [OF None, of title limit] by auto
next
  case (Some c)
  then show ?thesis
    by (cases c) (auto simp: page_body_columns split: sum.splits)
qed

lemma continues_page_count:
  "continues (page_body L title limit p) \<Longrightarrow> limit \<le> int (record_count (page_columns L p))"
  unfolding continues_page_body by (auto simp: record_count_def)

lemma page_loop_short_page:
  assumes "\<forall>p\<in>set full. continues (page_body L title limit p)"
    and "page_columns L r = Some (editors, edit_times)"
    and "int (min (length editors) (length edit_times)) < limit"
  shows "\<exists>fx'. page_history_loop L title limit (full @ r # rest) offset url all_entries fx
        = Some (all_entries @ concat (map (\<lambda>p. appended (page_body L title limit p)) full)
                  @ page_entries_of title editors edit_times, fx')
      \<and> length (requests fx') = length (requests fx) + length full + 1"
proof -
  from page_loop_prefix [OF assms(1), of "r # rest" offset url all_entries fx]
  obtain offset' url' fx1 where
    1: "page_history_loop L title limit (full @ r # rest) offset url all_entries fx =
       page_history_loop L title limit (r # rest) offset' url'
         (all_entries @ concat (map (\<lambda>r. appended (page_body L title limit r)) full)) fx1"
    and 2: "length (requests fx1) = length (requests fx) + length full"
    by blast
  have "page_body L title limit r = Break (page_entries_of title editors edit_times)"
    using assms(2,3) by (simp add: page_body_columns)
  then show ?thesis
    using 1 2 by simp
qed

lemma page_loop_raised:
  assumes "\<forall>p\<in>set full. continues (page_body L title limit p)"
    and "page_body L title limit r = Raised es e"
  shows "\<exists>fx1. page_history_loop L title limit (full @ r # rest) offset url all_entries fx
        = Some (all_entries @ concat (map (\<lambda>p. appended (page_body L title limit p)) full) @ es,
                page_except e fx1)
      \<and> length (requests fx1) = length (requests fx) + length full + 1"
proof -
  from page_loop_prefix [OF assms(1), of "r # rest" offset url all_entries fx]
  obtain offset' url' fx0 where
    1: "page_history_loop L title limit (full @ r # rest) offset url all_entries fx =
       page_history_loop L title limit (r # rest) offset' url'
         (all_entries @ concat (map (\<lambda>r. appended (page_body L title limit r)) full)) fx0"
    and 2: "length (requests fx0) = length (requests fx) + length full"
    by blast
  let ?fx1 = "fx0\<lparr>logged := logged fx0 @ page_info title limit offset' url',
                   requests := requests fx0 @ [url']\<rparr>"
  have "page_history_loop L title limit (r # rest) offset' url'
         (all_entries @ concat (map (\<lambda>r. appended (page_body L title limit r)) full)) fx0
       = Some (all_entries @ concat (map (\<lambda>p. appended (page_body L title limit p)) full) @ es,
                page_except e ?fx1)"
    using assms(2) by simp
  moreover have "length (requests ?fx1) = length (requests fx) + length full + 1"
    using 2 by simp
  ultimately show ?thesis using 1 by (intro exI [of _ ?fx1]) simp
qed

lemma page_loop_requests:
  "page_history_loop L title limit script offset url all_entries fx = Some (out, fx') \<Longrightarrow>
   \<exists>more. requests fx' = requests fx @ url # more"
proof (induction script arbitrary: offset url all_entries fx)
  case Nil
  then show ?case by simp
next
  case (Cons r script)
  let ?fx1 = "fx\<lparr>logged := logged fx @ page_info title limit offset url,
                   requests := requests fx @ [url]\<rparr>"
  show ?case
  proof (cases "page_body L title limit r")
    case (Break es)
    with Cons.prems show ?thesis by auto
  next
    case (Raised es e)
    with Cons.prems show ?thesis by auto
  next
    case (Continue es off)
    with Cons.prems have "page_history_loop L title limit script off (history_url title off limit)
        (all_entries @ es) ?fx1 = Some (out, fx')" by simp
    from Cons.IH [OF this] show ?thesis by auto
  qed
qed

lemma page_loop_next_request:
  assumes "page_body L title limit r = Continue es off"
    and "page_history_loop L title limit (r # rest) offset url all_entries fx = Some (out, fx')"
  shows "\<exists>more. requests fx' = requests fx @ url # history_url title off limit # more"
proof -
  let ?fx1 = "fx\<lparr>logged := logged fx @ page_info title limit offset url,
                   requests := requests fx @ [url]\<rparr>"
  from assms have "page_history_loop L title limit rest off (history_url title off limit)
        (all_entries @ es) ?fx1 = Some (out, fx')" by simp
  from page_loop_requests [OF this] show ?thesis by auto
qed

subsection \<open>User contributions: short pages, raising rounds, the requests sent\<close>

lemma continues_user_body:
  "continues (user_body L username limit p) \<longleftrightarrow>
     (\<exists>a b off. user_columns L p = Some (a, b) \<and> \<not> int (min (length a) (length b)) < limit
        \<and> next_offset L a = Inr off)"
proof (cases "user_columns L p")
  case None
  then show ?thesis using user_body_no_columns [OF None, of username limit] by auto
next
  case (Some c)
  then show ?thesis
    by (cases c) (auto simp: user_body_columns split: sum.splits)
qed

lemma continues_user_count:
  "continues (user_body L username limit p) \<Longrightarrow> limit \<le> int (record_count (user_columns L p))"
  unfolding continues_user_body by (auto simp: record_count_def)

lemma user_loop_short_page:
  assumes "\<forall>p\<in>set full. continues (user_body L username limit p)"
    and "user_columns L r = Some (edit_times, edit_page_titles)"
    and "int (min (length edit_times) (length edit_page_titles)) < limit"
  shows "\<exists>fx'. user_history_loop L username limit (full @ r # rest) offset url all_entries fx
        = Some (all_entries @ concat (map (\<lambda>p. appended (user_body L username limit p)) full)
                  @ user_entries_of username edit_times edit_page_titles, fx')
      \<and> length (requests fx') = length (requests fx) + length full + 1"
proof -
  from user_loop_prefix [OF assms(1), of "r # rest" offset url all_entries fx]
  obtain offset' url' fx1 where
    1: "user_history_loop L username limit (full @ r # rest) offset url all_entries fx =
       user_history_loop L username limit (r # rest) offset' url'
         (all_entries @ concat (map (\<lambda>r. appended (user_body L username limit r)) full)) fx1"
    and 2: "length (requests fx1) = length (requests fx) + length full"
    by blast
  have "user_body L username limit r = Break (user_entries_of username edit_times edit_page_titles)"
    using assms(2,3) by (simp add: user_body_columns)
  then show ?thesis
    using 1 2 by simp
qed

lemma user_loop_raised:
  assumes "\<forall>p\<in>set full. continues (user_body L username limit p)"
    and "user_body L username limit r = Raised es e"
  shows "\<exists>fx1. user_history_loop L username limit (full @ r # rest) offset url all_entries fx
        = Some (all_entries @ concat (map (\<lambda>p. appended (user_body L username limit p)) full) @ es,
                user_except e fx1)
      \<and> length (requests fx1) = length (requests fx) + length full + 1"
proof -
  from user_loop_prefix [OF assms(1), of "r # rest" offset url all_entries fx]
  obtain offset' url' fx0 where
    1: "user_history_loop L username limit (full @ r # rest) offset url all_entries fx =
       user_history_loop L username limit (r # rest) offset' url'
         (all_entries @ concat (map (\<lambda>r. appended (user_body L username limit r)) full)) fx0"
    and 2: "length (requests fx0) = length (requests fx) + length full"
    by blast
  let ?fx1 = "fx0\<lparr>logged := logged fx0 @ user_info username limit offset' url',
                   requests := requests fx0 @ [url']\<rparr>"
  have "user_history_loop L username limit (r # rest) offset' url'
         (all_entries @ concat (map (\<lambda>r. appended (user_body L username limit r)) full)) fx0
       = Some (all_entries @ concat (map (\<lambda>p. appended (user_body L username limit p)) full) @ es,
                user_except e ?fx1)"
    using assms(2) by simp
  moreover have "length (requests ?fx1) = length (requests fx) + length full + 1"
    using 2 by simp
  ultimately show ?thesis using 1 by (intro exI [of _ ?fx1]) simp
qed

lemma user_loop_requests:
  "user_history_loop L username limit script offset url all_entries fx = Some (out, fx') \<Longrightarrow>
   \<exists>more. requests fx' = requests fx @ url # more"
proof (induction script arbitrary: offset url all_entries fx)
  case Nil
  then show ?case by simp
next
  case (Cons r script)
  let ?fx1 = "fx\<lparr>logged := logged fx @ user_info username limit offset url,
                   requests := requests fx @ [url]\<rparr>"
  show ?case
  proof (cases "user_body L username limit r")
    case (Break es)
    with Cons.prems show ?thesis by auto
  next
    case (Raised es e)
    with Cons.prems show ?thesis by auto
  next
    case (Continue es off)
    with Cons.prems have "user_history_loop L username limit script off (contributions_url_of username limit off)
        (all_entries @ es) ?fx1 = Some (out, fx')" by simp
    from Cons.IH [OF this] show ?thesis by auto
  qed
qed

lemma user_loop_next_request:
  assumes "user_body L username limit r = Continue es off"
    and "user_history_loop L username limit (r # rest) offset url all_entries fx = Some (out, fx')"
  shows "\<exists>more. requests fx' = requests fx @ url # contributions_url_of username limit off # more"
proof -
  let ?fx1 = "fx\<lparr>logged := logged fx @ user_info username limit offset url,
                   requests := requests fx @ [url]\<rparr>"
  from assms have "user_history_loop L username limit rest off (contributions_url_of username limit off)
        (all_entries @ es) ?fx1 = Some (out, fx')" by simp
  from user_loop_requests [OF this] show ?thesis by auto
qed

subsection \<open>The functions on a script\<close>

lemma get_page_history_short_page:
  assumes "title_from_url wiki_url = Some title"
    and "\<forall>p\<in>set full. continues (page_body L title limit p)"
    and "page_columns L r = Some (editors, edit_times)"
    and "int (min (length editors) (length edit_times)) < limit"
  shows "\<exists>fx'. get_page_history L (full @ r # rest) wiki_url offset limit
        = Some (Inr (concat (map (\<lambda>p. appended (page_body L title limit p)) full)
                  @ page_entries_of title editors edit_times), fx')
      \<and> length (requests fx') = length full + 1"
  using page_loop_short_page [OF assms(2-4), of rest offset "history_url title offset limit" "[]" no_effects]
  by (auto simp: get_page_history_def assms(1) no_effects_def)

lemma get_page_history_before_last:
  assumes "get_page_history L script wiki_url offset limit = Some (res, fx')"
  shows "\<forall>p\<in>set (take (length (requests fx') - 1) script).
           limit \<le> int (record_count (page_columns L p))"
proof (cases "title_from_url wiki_url")
  case None
  with assms show ?thesis by (auto simp: get_page_history_def no_effects_def)
next
  case (Some title)
  with assms obtain out where
    "page_history_loop L title limit script offset (history_url title offset limit) [] no_effects
       = Some (out, fx')"
    by (auto simp: get_page_history_def)
  from page_loop_returns [OF this] obtain n where
    "length (requests fx') = length (requests no_effects) + n"
    "\<forall>r\<in>set (take (n - 1) script). continues (page_body L title limit r)"
    by blast
  then show ?thesis
    by (auto simp: no_effects_def dest: continues_page_count)
qed

lemma get_user_edit_history_short_page:
  assumes "\<forall>p\<in>set full. continues (user_body L username limit p)"
    and "user_columns L r = Some (edit_times, edit_page_titles)"
    and "int (min (length edit_times) (length edit_page_titles)) < limit"
  shows "\<exists>fx'. get_user_edit_history L (full @ r # rest) username offset limit
        = Some (concat (map (\<lambda>p. appended (user_body L username limit p)) full)
                  @ user_entries_of username edit_times edit_page_titles, fx')
      \<and> length (requests fx') = length full + 1"
  using user_loop_short_page [OF assms, of rest offset
      "contributions_url_of username limit offset" "[]" no_effects]
  by (auto simp: get_user_edit_history_def no_effects_def)

lemma get_user_edit_history_before_last:
  assumes "get_user_edit_history L script username offset limit = Some (out, fx')"
  shows "\<forall>p\<in>set (take (length (requests fx') - 1) script).
           limit \<le> int (record_count (user_columns L p))"
proof -
  from assms have
    "user_history_loop L username limit script offset (contributions_url_of username limit offset)
       [] no_effects = Some (out, fx')"
    by (simp add: get_user_edit_history_def)
  from user_loop_returns [OF this] obtain n where
    "length (requests fx') = length (requests no_effects) + n"
    "\<forall>r\<in>set (take (n - 1) script). continues (user_body L username limit r)"
    by blast
  then show ?thesis
    by (auto simp: no_effects_def dest: continues_user_count)
qed

lemma page_three_pages:
  assumes t: "title_from_url wiki_url = Some title"
    and p1: "continues (page_body L title 500 p1)" "record_count (page_columns L p1) = 500"
    and p2: "continues (page_body L title 500 p2)" "record_count (page_columns L p2) = 500"
    and p3: "page_columns L p3 = Some (editors, edit_times)"
      "min (length editors) (length edit_times) = 137"
  shows "\<exists>out fx'. get_page_history L (p1 # p2 # p3 # rest) wiki_url offset 500 = Some (Inr out, fx')
      \<and> length out = 1137 \<and> length (requests fx') = 3"
proof -
  have full: "\<forall>p\<in>set [p1, p2]. continues (page_body L title 500 p)"
    using p1 p2 by simp
  define out where "out = concat (map (\<lambda>p. appended (page_body L title 500 p)) [p1, p2])
                  @ page_entries_of title editors edit_times"
  from get_page_history_short_page [OF t full p3(1), of rest offset] p3(2)
  obtain fx' where "get_page_history L ([p1, p2] @ p3 # rest) wiki_url offset 500
        = Some (Inr out, fx')"
    "length (requests fx') = length [p1, p2] + 1"
    unfolding out_def by auto
  then have "get_page_history L (p1 # p2 # p3 # rest) wiki_url offset 500 = Some (Inr out, fx')"
    and "length (requests fx') = 3"
    by simp_all
  moreover have "length out = 1137"
    using p1 p2 p3 by (simp add: out_def length_appended_page_body)
  ultimately show ?thesis by blast
qed

lemma user_three_pages:
  assumes p1: "continues (user_body L username 500 p1)" "record_count (user_columns L p1) = 500"
    and p2: "continues (user_body L username 500 p2)" "record_count (user_columns L p2) = 500"
    and p3: "user_columns L p3 = Some (edit_times, edit_page_titles)"
      "min (length edit_times) (length edit_page_titles) = 137"
  shows "\<exists>out fx'. get_user_edit_history L (p1 # p2 # p3 # rest) username offset 500 = Some (out, fx')
      \<and> length out = 1137 \<and> length (requests fx') = 3"
proof -
  have full: "\<forall>p\<in>set [p1, p2]. continues (user_body L username 500 p)"
    using p1 p2 by simp
  define out where "out = concat (map (\<lambda>p. appended (user_body L username 500 p)) [p1, p2])
                  @ user_entries_of username edit_times edit_page_titles"
  from get_user_edit_history_short_page [OF full p3(1), of rest offset] p3(2)
  obtain fx' where "get_user_edit_history L ([p1, p2] @ p3 # rest) username offset 500
        = Some (out, fx')"
    "length (requests fx') = length [p1, p2] + 1"
    unfolding out_def by auto
  then have "get_user_edit_history L (p1 # p2 # p3 # rest) username offset 500 = Some (out, fx')"
    and "length (requests fx') = 3"
    by simp_all
  moreover have "length out = 1137"
    using p1 p2 p3 by (simp add: out_def length_appended_user_body)
  ultimately show ?thesis by blast
qed

subsection \<open>The synthetic site\<close>

lemma queries_differ:
  "editors_query \<noteq> page_times_query" "user_times_query \<noteq> user_titles_query"
  by (simp_all add: editors_query_def page_times_query_def user_times_query_def
      user_titles_query_def)

lemma fixture_page_columns:
  "page_columns fixture_libs (history_page status editors edit_times) = Some (editors, edit_times)"
  using queries_differ(1)
  by (auto simp: page_columns_def fixture_libs_def history_page_def)

lemma fixture_user_columns:
  "\<not> (400 \<le> status \<and> status < 600) \<Longrightarrow> edit_page_titles_of hrefs = Inr titles \<Longrightarrow>
   user_columns fixture_libs (contributions_page status edit_times hrefs) = Some (edit_times, titles)"
  using queries_differ(2)
  by (auto simp: user_columns_def fixture_libs_def contributions_page_def raise_for_status_def)

lemma edit_page_titles_replicate:
  "title_from_url url = Some t \<Longrightarrow> edit_page_titles_of (replicate n url) = Inr (replicate n t)"
  by (induction n) simp_all

lemma fixture_next_offset:
  "0 < n \<Longrightarrow> next_offset fixture_libs (replicate n ''2011-05-04T13:02:00'') = Inr ''20110504130200''"
proof -
  assume "0 < n"
  then have "replicate n ''2011-05-04T13:02:00'' \<noteq> []" by simp
  moreover have "parse fixture_libs (last (replicate n ''2011-05-04T13:02:00''))
      = Inr \<lparr>year = 2011, month = 5, day = 4, hour = 13, minute = 2, second = 0\<rparr>"
    using \<open>0 < n\<close> by (simp add: fixture_libs_def fixture_parse_def)
  ultimately have "next_offset fixture_libs (replicate n ''2011-05-04T13:02:00'')
      = Inr (str_int (int (nat_of_digits (strftime_YmdHMS
          \<lparr>year = 2011, month = 5, day = 4, hour = 13, minute = 2, second = 0\<rparr>))))"
    by (rule next_offset_parsed)
  also have "str_int (int (nat_of_digits (strftime_YmdHMS
          \<lparr>year = 2011, month = 5, day = 4, hour = 13, minute = 2, second = 0\<rparr>)))
      = strftime_YmdHMS \<lparr>year = 2011, month = 5, day = 4, hour = 13, minute = 2, second = 0\<rparr>"
    by (rule offset_is_strftime) simp
  finally show ?thesis by (simp only: strftime_example)
qed

lemma title_example:
  "title_from_url ''https://en.wikipedia.org/wiki/A_Troublesome_Inheritance''
     = Some ''A_Troublesome_Inheritance''"
proof -
  have nl: "newline \<notin> set ''https://en.wikipedia.org/wiki/A_Troublesome_Inheritance''"
    by (simp add: newline_def)
  have "last_seg (''https://en.wikipedia.org/wiki'' @ slash # ''A_Troublesome_Inheritance'' @ [])
      = Some ''A_Troublesome_Inheritance''"
    by (rule last_seg_decomp) simp_all
  then show ?thesis
    using title_from_url_last_seg [OF nl] by simp
qed

lemma title_some_page: "title_from_url ''/wiki/Some_Page'' = Some ''Some_Page''"
proof -
  have nl: "newline \<notin> set ''/wiki/Some_Page''"
    by (simp add: newline_def)
  have "last_seg (''/wiki'' @ slash # ''Some_Page'' @ []) = Some ''Some_Page''"
    by (rule last_seg_decomp) simp_all
  then show ?thesis
    using title_from_url_last_seg [OF nl] by simp
qed

lemma fixture_history_page_continues:
  "0 < n \<Longrightarrow> limit \<le> int n \<Longrightarrow>
   continues (page_body fixture_libs title limit
     (history_page status (replicate n editor) (replicate n ''2011-05-04T13:02:00'')))"
  unfolding continues_page_body
  by (simp add: fixture_page_columns fixture_next_offset)

lemma fixture_contributions_page_columns:
  "\<not> (400 \<le> status \<and> status < 600) \<Longrightarrow>
   user_columns fixture_libs (contributions_page status edit_times (replicate n ''/wiki/Some_Page''))
     = Some (edit_times, replicate n ''Some_Page'')"
  by (rule fixture_user_columns) (simp_all add: edit_page_titles_replicate title_some_page)

lemma fixture_contributions_page_continues:
  "0 < n \<Longrightarrow> limit \<le> int n \<Longrightarrow> \<not> (400 \<le> status \<and> status < 600) \<Longrightarrow>
   continues (user_body fixture_libs username limit
     (contributions_page status (replicate n ''2011-05-04T13:02:00'')
        (replicate n ''/wiki/Some_Page'')))"
  unfolding continues_user_body
  by (simp add: fixture_contributions_page_columns fixture_next_offset)

section \<open>The claims about pagination\<close>

text \<open>
  Claim C1. In both functions the loop ends with the first fetched page whose record count
  is below \<open>limit\<close>: when every page of \<open>full\<close> made the loop go on and the next page
  \<open>r\<close> has fewer than \<open>limit\<close> records, the function returns after exactly
  \<open>length full + 1\<close> requests with the records of those pages, whatever the site would
  serve next; and whenever the function returns, every page fetched before the last one had
  at least \<open>limit\<close> records. With \<open>limit = 500\<close> and pages of 500, 500 and 137 records
  the function sends exactly 3 requests and returns exactly 1137 records.
\<close>

theorem pagination_stops_at_first_short_page:
  "(title_from_url wiki_url = Some title
      \<and> (\<forall>p\<in>set full. continues (page_body L title limit p))
      \<and> page_columns L r = Some (editors, edit_times)
      \<and> int (min (length editors) (length edit_times)) < limit
    \<longrightarrow> (\<exists>fx'. get_page_history L (full @ r # rest) wiki_url offset limit
               = Some (Inr (concat (map (\<lambda>p. appended (page_body L title limit p)) full)
                            @ page_entries_of title editors edit_times), fx')
             \<and> length (requests fx') = length full + 1))
   \<and> (get_page_history L script wiki_url offset limit = Some (res, fxa)
    \<longrightarrow> (\<forall>p\<in>set (take (length (requests fxa) - 1) script).
           limit \<le> int (record_count (page_columns L p))))
   \<and> ((\<forall>p\<in>set full. continues (user_body L username limit p))
      \<and> user_columns L r = Some (stamps, titles)
      \<and> int (min (length stamps) (length titles)) < limit
    \<longrightarrow> (\<exists>fx'. get_user_edit_history L (full @ r # rest) username offset limit
               = Some (concat (map (\<lambda>p. appended (user_body L username limit p)) full)
                       @ user_entries_of username stamps titles, fx')
             \<and> length (requests fx') = length full + 1))
   \<and> (get_user_edit_history L script username offset limit = Some (out, fxb)
    \<longrightarrow> (\<forall>p\<in>set (take (length (requests fxb) - 1) script).
           limit \<le> int (record_count (user_columns L p))))
   \<and> (title_from_url wiki_url = Some title
      \<and> continues (page_body L title 500 pa) \<and> record_count (page_columns L pa) = 500
      \<and> continues (page_body L title 500 pb) \<and> record_count (page_columns L pb) = 500
      \<and> page_columns L pc = Some (editors, edit_times)
      \<and> min (length editors) (length edit_times) = 137
    \<longrightarrow> (\<exists>out fx'. get_page_history L (pa # pb # pc # rest) wiki_url offset 500
                   = Some (Inr out, fx')
             \<and> length out = 1137 \<and> length (requests fx') = 3))
   \<and> (continues (user_body L username 500 pa) \<and> record_count (user_columns L pa) = 500
      \<and> continues (user_body L username 500 pb) \<and> record_count (user_columns L pb) = 500
      \<and> user_columns L pc = Some (stamps, titles)
      \<and> min (length stamps) (length titles) = 137
    \<longrightarrow> (\<exists>out fx'. get_user_edit_history L (pa # pb # pc # rest) username offset 500
                   = Some (out, fx')
             \<and> length out = 1137 \<and> length (requests fx') = 3))"
proof (intro conjI impI)
  assume "title_from_url wiki_url = Some title
      \<and> (\<forall>p\<in>set full. continues (page_body L title limit p))
      \<and> page_columns L r = Some (editors, edit_times)
      \<and> int (min (length editors) (length edit_times)) < limit"
  then show "\<exists>fx'. get_page_history L (full @ r # rest) wiki_url offset limit
               = Some (Inr (concat (map (\<lambda>p. appended (page_body L title limit p)) full)
                            @ page_entries_of title editors edit_times), fx')
             \<and> length (requests fx') = length full + 1"
    by (intro get_page_history_short_page) simp_all
next
  assume "get_page_history L script wiki_url offset limit = Some (res, fxa)"
  then show "\<forall>p\<in>set (take (length (requests fxa) - 1) script).
           limit \<le> int (record_count (page_columns L p))"
    by (rule get_page_history_before_last)
next
  assume "(\<forall>p\<in>set full. continues (user_body L username limit p))
      \<and> user_columns L r = Some (stamps, titles)
      \<and> int (min (length stamps) (length titles)) < limit"
  then show "\<exists>fx'. get_user_edit_history L (full @ r # rest) username offset limit
               = Some (concat (map (\<lambda>p. appended (user_body L username limit p)) full)
                       @ user_entries_of username stamps titles, fx')
             \<and> length (requests fx') = length full + 1"
    by (intro get_user_edit_history_short_page) simp_all
next
  assume "get_user_edit_history L script username offset limit = Some (out, fxb)"
  then show "\<forall>p\<in>set (take (length (requests fxb) - 1) script).
           limit \<le> int (record_count (user_columns L p))"
    by (rule get_user_edit_history_before_last)
next
  assume "title_from_url wiki_url = Some title
      \<and> continues (page_body L title 500 pa) \<and> record_count (page_columns L pa) = 500
      \<and> continues (page_body L title 500 pb) \<and> record_count (page_columns L pb) = 500
      \<and> page_columns L pc = Some (editors, edit_times)
      \<and> min (length editors) (length edit_times) = 137"
  then show "\<exists>out fx'. get_page_history L (pa # pb # pc # rest) wiki_url offset 500
                   = Some (Inr out, fx')
             \<and> length out = 1137 \<and> length (requests fx') = 3"
    by (intro page_three_pages [where title = title and editors = editors and edit_times = edit_times])
      simp_all
next
  assume "continues (user_body L username 500 pa) \<and> record_count (user_columns L pa) = 500
      \<and> continues (user_body L username 500 pb) \<and> record_count (user_columns L pb) = 500
      \<and> user_columns L pc = Some (stamps, titles)
      \<and> min (length stamps) (length titles) = 137"
  then show "\<exists>out fx'. get_user_edit_history L (pa # pb # pc # rest) username offset 500
                   = Some (out, fx')
             \<and> length out = 1137 \<and> length (requests fx') = 3"
    by (intro user_three_pages [where edit_times = stamps and edit_page_titles = titles]) simp_all
qed

theorem pagination_stops_at_first_short_page_witness:
  "(\<exists>out fx'. get_page_history fixture_libs
       [history_page 200 (replicate 500 ''Editor'') (replicate 500 ''2011-05-04T13:02:00''),
        history_page 200 (replicate 500 ''Editor'') (replicate 500 ''2011-05-04T13:02:00''),
        history_page 200 (replicate 137 ''Editor'') (replicate 137 ''2011-05-04T13:02:00'')]
       ''https://en.wikipedia.org/wiki/A_Troublesome_Inheritance'' [] 500 = Some (Inr out, fx')
     \<and> length out = 1137 \<and> length (requests fx') = 3)
   \<and> (\<exists>out fx'. get_user_edit_history fixture_libs
       [contributions_page 200 (replicate 500 ''2011-05-04T13:02:00'') (replicate 500 ''/wiki/Some_Page''),
        contributions_page 200 (replicate 500 ''2011-05-04T13:02:00'') (replicate 500 ''/wiki/Some_Page''),
        contributions_page 200 (replicate 137 ''2011-05-04T13:02:00'') (replicate 137 ''/wiki/Some_Page'')]
       ''Alice'' [] 500 = Some (out, fx')
     \<and> length out = 1137 \<and> length (requests fx') = 3)"
proof -
  let ?url = "''https://en.wikipedia.org/wiki/A_Troublesome_Inheritance''"
  let ?title = "''A_Troublesome_Inheritance''"
  let ?full = "history_page 200 (replicate 500 ''Editor'') (replicate 500 ''2011-05-04T13:02:00'')"
  let ?short = "history_page 200 (replicate 137 ''Editor'') (replicate 137 ''2011-05-04T13:02:00'')"
  let ?ufull = "contributions_page 200 (replicate 500 ''2011-05-04T13:02:00'')
      (replicate 500 ''/wiki/Some_Page'')"
  let ?ushort = "contributions_page 200 (replicate 137 ''2011-05-04T13:02:00'')
      (replicate 137 ''/wiki/Some_Page'')"
  note inst = pagination_stops_at_first_short_page
    [where L = fixture_libs and wiki_url = ?url and title = ?title and username = "''Alice''"
      and pa = ?full and pb = ?full and pc = ?short and rest = "[]" and offset = "[]"
      and editors = "replicate 137 ''Editor''"
      and edit_times = "replicate 137 ''2011-05-04T13:02:00''"]
  have page_hyps: "title_from_url ?url = Some ?title
      \<and> continues (page_body fixture_libs ?title 500 ?full)
      \<and> record_count (page_columns fixture_libs ?full) = 500
      \<and> continues (page_body fixture_libs ?title 500 ?full)
      \<and> record_count (page_columns fixture_libs ?full) = 500
      \<and> page_columns fixture_libs ?short
          = Some (replicate 137 ''Editor'', replicate 137 ''2011-05-04T13:02:00'')
      \<and> min (length (replicate 137 ''Editor'')) (length (replicate 137 ''2011-05-04T13:02:00''))
          = 137"
    by (simp add: title_example fixture_history_page_continues fixture_page_columns record_count_def)
  have page: "\<exists>out fx'. get_page_history fixture_libs [?full, ?full, ?short] ?url [] 500
      = Some (Inr out, fx') \<and> length out = 1137 \<and> length (requests fx') = 3"
    using inst [THEN conjunct2, THEN conjunct2, THEN conjunct2, THEN conjunct2, THEN conjunct1]
      page_hyps by (rule mp)
  have user_hyps: "continues (user_body fixture_libs ''Alice'' 500 ?ufull)
      \<and> record_count (user_columns fixture_libs ?ufull) = 500
      \<and> continues (user_body fixture_libs ''Alice'' 500 ?ufull)
      \<and> record_count (user_columns fixture_libs ?ufull) = 500
      \<and> user_columns fixture_libs ?ushort
          = Some (replicate 137 ''2011-05-04T13:02:00'', replicate 137 ''Some_Page'')
      \<and> min (length (replicate 137 ''2011-05-04T13:02:00''))
            (length (replicate 137 ''Some_Page'')) = 137"
    by (simp add: fixture_contributions_page_continues fixture_contributions_page_columns
        record_count_def)
  have user: "\<exists>out fx'. get_user_edit_history fixture_libs [?ufull, ?ufull, ?ushort] ''Alice'' [] 500
      = Some (out, fx') \<and> length out = 1137 \<and> length (requests fx') = 3"
    using pagination_stops_at_first_short_page
      [where L = fixture_libs and username = "''Alice''"
        and pa = ?ufull and pb = ?ufull and pc = ?ushort and rest = "[]" and offset = "[]"
        and stamps = "replicate 137 ''2011-05-04T13:02:00''"
        and titles = "replicate 137 ''Some_Page''",
        THEN conjunct2, THEN conjunct2, THEN conjunct2, THEN conjunct2, THEN conjunct2]
      user_hyps by (rule mp)
  from page user show ?thesis by (rule conjI)
qed

lemma get_page_history_raised:
  assumes "title_from_url wiki_url = Some title"
    and "\<forall>p\<in>set full. continues (page_body L title limit p)"
    and "page_body L title limit r = Raised es e"
  shows "\<exists>fx. get_page_history L (full @ r # rest) wiki_url offset limit
        = Some (Inr (concat (map (\<lambda>p. appended (page_body L title limit p)) full) @ es),
                page_except e fx)
      \<and> length (requests fx) = length full + 1"
  using page_loop_raised [OF assms(2,3), of rest offset "history_url title offset limit" "[]" no_effects]
  by (auto simp: get_page_history_def assms(1) no_effects_def)

lemma get_user_edit_history_raised:
  assumes "\<forall>p\<in>set full. continues (user_body L username limit p)"
    and "user_body L username limit r = Raised es e"
  shows "\<exists>fx. get_user_edit_history L (full @ r # rest) username offset limit
        = Some (concat (map (\<lambda>p. appended (user_body L username limit p)) full) @ es,
                user_except e fx)
      \<and> length (requests fx) = length full + 1"
  using user_loop_raised [OF assms, of rest offset
      "contributions_url_of username limit offset" "[]" no_effects]
  by (auto simp: get_user_edit_history_def no_effects_def)

lemma page_body_get_raises: "page_body L title limit (Inl e) = Raised [] e"
  by (simp add: page_body_def)

lemma user_body_get_raises: "user_body L username limit (Inl e) = Raised [] e"
  by (simp add: user_body_def)

lemma user_body_bad_status:
  "400 \<le> status_code response \<Longrightarrow> status_code response < 600 \<Longrightarrow>
   user_body L username limit (Inr response) = Raised [] (Exn HTTPError None)"
  by (simp add: user_body_def raise_for_status_def)

lemma page_except_logged:
  "is_RequestException e \<Longrightarrow>
   logged (page_except e fx) = logged fx @
     [ERROR (case strerror e of None \<Rightarrow> NoneObj | Some s \<Rightarrow> Str s),
      ERROR (Str ''error fetching page, restart at last offset'')]"
  by (simp add: page_except_def)

lemma user_except_logged:
  "is_RequestException e \<Longrightarrow>
   logged (user_except e fx) = logged fx @
     [ERROR (Str ''error fetching page, restart at last offset''), ERROR (ExnObj e)]"
  by (simp add: user_except_def)

lemma requests_user_except_eq: "requests (user_except e fx) = requests fx"
  by simp

text \<open>
  Claim C2. When the request number \<open>N = length full + 1\<close> fails (\<^verbatim>\<open>get\<close> raises, or in
  user mode \<^verbatim>\<open>raise_for_status\<close> does on a status in 400..599), after \<open>N - 1\<close> pages that
  made the loop go on, the function returns exactly the records of those \<open>N - 1\<close> pages
  and no exception reaches the caller; the fault is only logged. The statement holds for
  every \<open>N\<close>, so for \<open>N \<ge> 2\<close>.
\<close>

theorem fault_returns_accumulated_records:
  "(title_from_url wiki_url = Some title
      \<and> (\<forall>p\<in>set full. continues (page_body L title limit p))
    \<longrightarrow> (\<exists>fx'. get_page_history L (full @ Inl e # rest) wiki_url offset limit
               = Some (Inr (concat (map (\<lambda>p. appended (page_body L title limit p)) full)), fx')
             \<and> length (requests fx') = length full + 1
             \<and> (is_RequestException e \<longrightarrow>
                  (\<exists>l. logged fx' = l @
                     [ERROR (case strerror e of None \<Rightarrow> NoneObj | Some s \<Rightarrow> Str s),
                      ERROR (Str ''error fetching page, restart at last offset'')]))))
   \<and> ((\<forall>p\<in>set full. continues (user_body L username limit p))
    \<longrightarrow> (\<exists>fx'. get_user_edit_history L (full @ Inl e # rest) username offset limit
               = Some (concat (map (\<lambda>p. appended (user_body L username limit p)) full), fx')
             \<and> length (requests fx') = length full + 1
             \<and> (is_RequestException e \<longrightarrow>
                  (\<exists>l. logged fx' = l @
                     [ERROR (Str ''error fetching page, restart at last offset''),
                      ERROR (ExnObj e)]))))
   \<and> ((\<forall>p\<in>set full. continues (user_body L username limit p))
      \<and> 400 \<le> status_code response \<and> status_code response < 600
    \<longrightarrow> (\<exists>fx'. get_user_edit_history L (full @ Inr response # rest) username offset limit
               = Some (concat (map (\<lambda>p. appended (user_body L username limit p)) full), fx')
             \<and> length (requests fx') = length full + 1
             \<and> (\<exists>l. logged fx' = l @
                     [ERROR (Str ''error fetching page, restart at last offset''),
                      ERROR (ExnObj (Exn HTTPError None))])))"
proof (intro conjI impI)
  assume a: "title_from_url wiki_url = Some title
      \<and> (\<forall>p\<in>set full. continues (page_body L title limit p))"
  from get_page_history_raised [of wiki_url title full L limit "Inl e" "[]" e rest offset] a
  obtain fx where fx: "get_page_history L (full @ Inl e # rest) wiki_url offset limit
        = Some (Inr (concat (map (\<lambda>p. appended (page_body L title limit p)) full) @ []),
                page_except e fx)"
      "length (requests fx) = length full + 1"
    by (auto simp: page_body_get_raises)
  show "\<exists>fx'. get_page_history L (full @ Inl e # rest) wiki_url offset limit
               = Some (Inr (concat (map (\<lambda>p. appended (page_body L title limit p)) full)), fx')
             \<and> length (requests fx') = length full + 1
             \<and> (is_RequestException e \<longrightarrow>
                  (\<exists>l. logged fx' = l @
                     [ERROR (case strerror e of None \<Rightarrow> NoneObj | Some s \<Rightarrow> Str s),
                      ERROR (Str ''error fetching page, restart at last offset'')]))"
    using fx by (intro exI [of _ "page_except e fx"]) (auto simp: page_except_logged)
next
  assume a: "\<forall>p\<in>set full. continues (user_body L username limit p)"
  from get_user_edit_history_raised [of full L username limit "Inl e" "[]" e rest offset] a
  obtain fx where fx: "get_user_edit_history L (full @ Inl e # rest) username offset limit
        = Some (concat (map (\<lambda>p. appended (user_body L username limit p)) full) @ [],
                user_except e fx)"
      "length (requests fx) = length full + 1"
    by (auto simp: user_body_get_raises)
  show "\<exists>fx'. get_user_edit_history L (full @ Inl e # rest) username offset limit
               = Some (concat (map (\<lambda>p. appended (user_body L username limit p)) full), fx')
             \<and> length (requests fx') = length full + 1
             \<and> (is_RequestException e \<longrightarrow>
                  (\<exists>l. logged fx' = l @
                     [ERROR (Str ''error fetching page, restart at last offset''),
                      ERROR (ExnObj e)]))"
    using fx by (intro exI [of _ "user_except e fx"]) (auto simp: user_except_logged)
next
  assume a: "(\<forall>p\<in>set full. continues (user_body L username limit p))
      \<and> 400 \<le> status_code response \<and> status_code response < 600"
  then have b: "user_body L username limit (Inr response) = Raised [] (Exn HTTPError None)"
    by (simp add: user_body_bad_status)
  have h: "is_RequestException (Exn HTTPError None)"
    by (simp add: is_RequestException_def)
  from get_user_edit_history_raised [of full L username limit "Inr response" "[]"
      "Exn HTTPError None" rest offset] a b
  obtain fx where fx: "get_user_edit_history L (full @ Inr response # rest) username offset limit
        = Some (concat (map (\<lambda>p. appended (user_body L username limit p)) full) @ [],
                user_except (Exn HTTPError None) fx)"
      "length (requests fx) = length full + 1"
    by auto
  show "\<exists>fx'. get_user_edit_history L (full @ Inr response # rest) username offset limit
               = Some (concat (map (\<lambda>p. appended (user_body L username limit p)) full), fx')
             \<and> length (requests fx') = length full + 1
             \<and> (\<exists>l. logged fx' = l @
                     [ERROR (Str ''error fetching page, restart at last offset''),
                      ERROR (ExnObj (Exn HTTPError None))])"
    using fx h by (intro exI [of _ "user_except (Exn HTTPError None) fx"])
      (auto simp: user_except_logged)
qed

lemma fixture_history_page_appended:
  "appended (page_body fixture_libs title limit (history_page status editors edit_times))
     = page_entries_of title editors edit_times"
  by (simp add: appended_page_body fixture_page_columns)

lemma fixture_contributions_page_appended:
  "\<not> (400 \<le> status \<and> status < 600) \<Longrightarrow>
   appended (user_body fixture_libs username limit
      (contributions_page status edit_times (replicate n ''/wiki/Some_Page'')))
     = user_entries_of username edit_times (replicate n ''Some_Page'')"
  by (simp add: appended_user_body fixture_contributions_page_columns)

theorem fault_returns_accumulated_records_witness:
  "(\<exists>fx'. get_page_history fixture_libs
       [history_page 200 (replicate 2 ''Editor'') (replicate 2 ''2011-05-04T13:02:00''),
        Inl (Exn ConnectionError None)]
       ''https://en.wikipedia.org/wiki/A_Troublesome_Inheritance'' [] 2
     = Some (Inr (replicate 2 (''Editor'', ''2011-05-04T13:02:00'', ''A_Troublesome_Inheritance'')), fx')
     \<and> length (requests fx') = 2)
   \<and> (\<exists>fx'. get_user_edit_history fixture_libs
       [contributions_page 200 (replicate 2 ''2011-05-04T13:02:00'') (replicate 2 ''/wiki/Some_Page''),
        Inr \<lparr>status_code = 503, content = []\<rparr>]
       ''Alice'' [] 2
     = Some (replicate 2 (''Alice'', ''2011-05-04T13:02:00'', ''Some_Page''), fx')
     \<and> length (requests fx') = 2)"
proof -
  let ?url = "''https://en.wikipedia.org/wiki/A_Troublesome_Inheritance''"
  let ?title = "''A_Troublesome_Inheritance''"
  let ?pg = "history_page 200 (replicate 2 ''Editor'') (replicate 2 ''2011-05-04T13:02:00'')"
  let ?upg = "contributions_page 200 (replicate 2 ''2011-05-04T13:02:00'')
      (replicate 2 ''/wiki/Some_Page'')"
  let ?bad = "\<lparr>status_code = 503, content = []\<rparr> :: fixture_doc response"
  have page_hyps: "title_from_url ?url = Some ?title
      \<and> (\<forall>p\<in>set [?pg]. continues (page_body fixture_libs ?title 2 p))"
    by (simp add: title_example fixture_history_page_continues)
  have "\<exists>fx'. get_page_history fixture_libs ([?pg] @ Inl (Exn ConnectionError None) # []) ?url [] 2
        = Some (Inr (concat (map (\<lambda>p. appended (page_body fixture_libs ?title 2 p)) [?pg])), fx')
      \<and> length (requests fx') = length [?pg] + 1
      \<and> (is_RequestException (Exn ConnectionError None) \<longrightarrow>
           (\<exists>l. logged fx' = l @
              [ERROR (case strerror (Exn ConnectionError None) of None \<Rightarrow> NoneObj | Some s \<Rightarrow> Str s),
               ERROR (Str ''error fetching page, restart at last offset'')]))"
    using fault_returns_accumulated_records
      [where L = fixture_libs and wiki_url = ?url and title = ?title and full = "[?pg]"
        and limit = 2 and e = "Exn ConnectionError None" and rest = "[]" and offset = "[]",
        THEN conjunct1] page_hyps
    by (rule mp)
  then have page: "\<exists>fx'. get_page_history fixture_libs [?pg, Inl (Exn ConnectionError None)] ?url [] 2
     = Some (Inr (replicate 2 (''Editor'', ''2011-05-04T13:02:00'', ?title)), fx')
     \<and> length (requests fx') = 2"
    by (auto simp: fixture_history_page_appended page_entries_of_def zip_replicate)
  have user_hyps: "(\<forall>p\<in>set [?upg]. continues (user_body fixture_libs ''Alice'' 2 p))
      \<and> 400 \<le> status_code ?bad \<and> status_code ?bad < 600"
    by (simp add: fixture_contributions_page_continues)
  have "\<exists>fx'. get_user_edit_history fixture_libs ([?upg] @ Inr ?bad # []) ''Alice'' [] 2
        = Some (concat (map (\<lambda>p. appended (user_body fixture_libs ''Alice'' 2 p)) [?upg]), fx')
      \<and> length (requests fx') = length [?upg] + 1
      \<and> (\<exists>l. logged fx' = l @
              [ERROR (Str ''error fetching page, restart at last offset''),
               ERROR (ExnObj (Exn HTTPError None))])"
    using fault_returns_accumulated_records
      [where L = fixture_libs and username = "''Alice''" and full = "[?upg]"
        and limit = 2 and response = ?bad and rest = "[]" and offset = "[]",
        THEN conjunct2, THEN conjunct2] user_hyps
    by (rule mp)
  then have user: "\<exists>fx'. get_user_edit_history fixture_libs [?upg, Inr ?bad] ''Alice'' [] 2
     = Some (replicate 2 (''Alice'', ''2011-05-04T13:02:00'', ''Some_Page''), fx')
     \<and> length (requests fx') = 2"
    by (auto simp: fixture_contributions_page_appended user_entries_of_def zip_replicate)
  from page user show ?thesis by (rule conjI)
qed

lemma page_body_unparsed_date:
  assumes "page_columns L r = Some (editors, edit_times)"
    and "\<not> int (min (length editors) (length edit_times)) < limit"
    and "edit_times \<noteq> []" and "parse L (last edit_times) = Inl e"
  shows "page_body L title limit r = Raised (page_entries_of title editors edit_times) e"
  using assms by (simp add: page_body_columns next_offset_def py_last_def)

lemma user_body_unparsed_date:
  assumes "user_columns L r = Some (edit_times, edit_page_titles)"
    and "\<not> int (min (length edit_times) (length edit_page_titles)) < limit"
    and "edit_times \<noteq> []" and "parse L (last edit_times) = Inl e"
  shows "user_body L username limit r = Raised (user_entries_of username edit_times edit_page_titles) e"
  using assms by (simp add: user_body_columns next_offset_def py_last_def)

lemma edit_page_titles_no_match:
  "url \<in> set hrefs \<Longrightarrow> title_from_url url = None \<Longrightarrow>
   edit_page_titles_of hrefs = Inl (Exn AttributeError None)"
proof (induction hrefs)
  case Nil
  then show ?case by simp
next
  case (Cons u hrefs)
  show ?case
  proof (cases "title_from_url u")
    case None
    then show ?thesis by simp
  next
    case (Some t)
    with Cons.prems have "url \<in> set hrefs" by auto
    with Cons have "edit_page_titles_of hrefs = Inl (Exn AttributeError None)" by simp
    with Some show ?thesis by simp
  qed
qed

lemma user_body_no_match:
  assumes "raise_for_status response = Inr ()"
    and "document_fromstring L (content response) = Inr document"
    and "\<exists>url\<in>set (xpath L document user_titles_query). title_from_url url = None"
  shows "user_body L username limit (Inr response) = Raised [] (Exn AttributeError None)"
proof -
  from assms(3) obtain url where "url \<in> set (xpath L document user_titles_query)"
    "title_from_url url = None" by blast
  then have "edit_page_titles_of (xpath L document user_titles_query)
      = Inl (Exn AttributeError None)"
    by (rule edit_page_titles_no_match)
  with assms(1,2) show ?thesis
    by (simp add: user_body_def)
qed

lemma get_page_history_never_raises:
  "title_from_url wiki_url = Some title \<Longrightarrow>
   get_page_history L script wiki_url offset limit \<noteq> Some (Inl e, fx)"
  by (auto simp: get_page_history_def)

text \<open>
  Claim C9. Whatever is raised inside the loop body, in whatever round, the function
  returns the records appended so far and the exception does not reach the caller: if the
  round on page \<open>r\<close> raises \<open>e\<close> after appending \<open>es\<close>, the function returns the records of
  the earlier pages followed by \<open>es\<close>, and \<^verbatim>\<open>get_page_history\<close> never raises once the title
  was found. Two such faults: a last timestamp the date parser rejects (raised after the
  page's records were appended, so they are returned too) and a contribution link with no
  title match (raised before anything of the page was appended).
\<close>

theorem finally_return_swallows_every_exception:
  "(title_from_url wiki_url = Some title
      \<and> (\<forall>p\<in>set full. continues (page_body L title limit p))
      \<and> page_body L title limit r = Raised es e
    \<longrightarrow> (\<exists>fx'. get_page_history L (full @ r # rest) wiki_url offset limit
               = Some (Inr (concat (map (\<lambda>p. appended (page_body L title limit p)) full) @ es), fx')
             \<and> length (requests fx') = length full + 1))
   \<and> (title_from_url wiki_url = Some title
    \<longrightarrow> get_page_history L script wiki_url offset limit \<noteq> Some (Inl e, fx))
   \<and> ((\<forall>p\<in>set full. continues (user_body L username limit p))
      \<and> user_body L username limit r = Raised es e
    \<longrightarrow> (\<exists>fx'. get_user_edit_history L (full @ r # rest) username offset limit
               = Some (concat (map (\<lambda>p. appended (user_body L username limit p)) full) @ es, fx')
             \<and> length (requests fx') = length full + 1))
   \<and> (page_columns L r = Some (editors, edit_times)
      \<and> \<not> int (min (length editors) (length edit_times)) < limit
      \<and> edit_times \<noteq> [] \<and> parse L (last edit_times) = Inl e
    \<longrightarrow> page_body L title limit r = Raised (page_entries_of title editors edit_times) e)
   \<and> (user_columns L r = Some (stamps, titles)
      \<and> \<not> int (min (length stamps) (length titles)) < limit
      \<and> stamps \<noteq> [] \<and> parse L (last stamps) = Inl e
    \<longrightarrow> user_body L username limit r = Raised (user_entries_of username stamps titles) e)
   \<and> (raise_for_status response = Inr ()
      \<and> document_fromstring L (content response) = Inr document
      \<and> (\<exists>url\<in>set (xpath L document user_titles_query). title_from_url url = None)
    \<longrightarrow> user_body L username limit (Inr response) = Raised [] (Exn AttributeError None))"
proof (intro conjI impI)
  assume a: "title_from_url wiki_url = Some title
      \<and> (\<forall>p\<in>set full. continues (page_body L title limit p))
      \<and> page_body L title limit r = Raised es e"
  from get_page_history_raised [of wiki_url title full L limit r es e rest offset] a
  show "\<exists>fx'. get_page_history L (full @ r # rest) wiki_url offset limit
               = Some (Inr (concat (map (\<lambda>p. appended (page_body L title limit p)) full) @ es), fx')
             \<and> length (requests fx') = length full + 1"
    by (metis requests_page_except)
next
  assume "title_from_url wiki_url = Some title"
  then show "get_page_history L script wiki_url offset limit \<noteq> Some (Inl e, fx)"
    by (rule get_page_history_never_raises)
next
  assume a: "(\<forall>p\<in>set full. continues (user_body L username limit p))
      \<and> user_body L username limit r = Raised es e"
  from get_user_edit_history_raised [of full L username limit r es e rest offset] a
  show "\<exists>fx'. get_user_edit_history L (full @ r # rest) username offset limit
               = Some (concat (map (\<lambda>p. appended (user_body L username limit p)) full) @ es, fx')
             \<and> length (requests fx') = length full + 1"
    by (metis requests_user_except)
next
  assume "page_columns L r = Some (editors, edit_times)
      \<and> \<not> int (min (length editors) (length edit_times)) < limit
      \<and> edit_times \<noteq> [] \<and> parse L (last edit_times) = Inl e"
  then show "page_body L title limit r = Raised (page_entries_of title editors edit_times) e"
    by (intro page_body_unparsed_date) simp_all
next
  assume "user_columns L r = Some (stamps, titles)
      \<and> \<not> int (min (length stamps) (length titles)) < limit
      \<and> stamps \<noteq> [] \<and> parse L (last stamps) = Inl e"
  then show "user_body L username limit r = Raised (user_entries_of username stamps titles) e"
    by (intro user_body_unparsed_date) simp_all
next
  assume "raise_for_status response = Inr ()
      \<and> document_fromstring L (content response) = Inr document
      \<and> (\<exists>url\<in>set (xpath L document user_titles_query). title_from_url url = None)"
  then show "user_body L username limit (Inr response) = Raised [] (Exn AttributeError None)"
    using user_body_no_match [of response L document username limit] by blast
qed

lemma title_no_slash: "title_from_url ''Some_Page'' = None"
proof -
  have nl: "newline \<notin> set ''Some_Page''"
    by (simp add: newline_def)
  show ?thesis
    using title_from_url_last_seg [OF nl] by simp
qed

lemma fixture_parse: "parse fixture_libs = fixture_parse"
  by (simp add: fixture_libs_def)

lemma fixture_document_fromstring: "document_fromstring fixture_libs b = Inr b"
  by (simp add: fixture_libs_def)

lemma fixture_xpath_titles:
  "xpath fixture_libs [(user_times_query, edit_times), (user_titles_query, hrefs)] user_titles_query
     = hrefs"
  using queries_differ(2) by (auto simp: fixture_libs_def)

theorem finally_return_swallows_every_exception_witness:
  "(\<exists>fx'. get_page_history fixture_libs
       [history_page 200 (replicate 2 ''Editor'') (replicate 2 ''yesterday'')]
       ''https://en.wikipedia.org/wiki/A_Troublesome_Inheritance'' [] 2
     = Some (Inr (replicate 2 (''Editor'', ''yesterday'', ''A_Troublesome_Inheritance'')), fx')
     \<and> length (requests fx') = 1)
   \<and> (\<exists>fx'. get_user_edit_history fixture_libs
       [contributions_page 200 [''2011-05-04T13:02:00''] [''Some_Page'']] ''Alice'' [] 1
     = Some ([], fx')
     \<and> length (requests fx') = 1)"
proof -
  let ?url = "''https://en.wikipedia.org/wiki/A_Troublesome_Inheritance''"
  let ?title = "''A_Troublesome_Inheritance''"
  let ?pg = "history_page 200 (replicate 2 ''Editor'') (replicate 2 ''yesterday'')"
  let ?es = "page_entries_of ?title (replicate 2 ''Editor'') (replicate 2 ''yesterday'')"
  let ?resp = "\<lparr>status_code = 200,
      content = [(user_times_query, [''2011-05-04T13:02:00'']), (user_titles_query, [''Some_Page''])]\<rparr>"
  have date_hyps: "page_columns fixture_libs ?pg
        = Some (replicate 2 ''Editor'', replicate 2 ''yesterday'')
      \<and> \<not> int (min (length (replicate 2 ''Editor'')) (length (replicate 2 ''yesterday''))) < 2
      \<and> replicate 2 ''yesterday'' \<noteq> []
      \<and> parse fixture_libs (last (replicate 2 ''yesterday'')) = Inl (Exn ParserError None)"
    by (simp add: fixture_page_columns fixture_parse fixture_parse_def)
  have raised: "page_body fixture_libs ?title 2 ?pg = Raised ?es (Exn ParserError None)"
    using finally_return_swallows_every_exception
      [where L = fixture_libs and title = ?title and r = ?pg and limit = 2
        and editors = "replicate 2 ''Editor''" and edit_times = "replicate 2 ''yesterday''"
        and e = "Exn ParserError None",
        THEN conjunct2, THEN conjunct2, THEN conjunct2, THEN conjunct1] date_hyps
    by (rule mp)
  have page_hyps: "title_from_url ?url = Some ?title
      \<and> (\<forall>p\<in>set []. continues (page_body fixture_libs ?title 2 p))
      \<and> page_body fixture_libs ?title 2 ?pg = Raised ?es (Exn ParserError None)"
    using raised by (simp add: title_example)
  have "\<exists>fx'. get_page_history fixture_libs ([] @ ?pg # []) ?url [] 2
        = Some (Inr (concat (map (\<lambda>p. appended (page_body fixture_libs ?title 2 p)) []) @ ?es), fx')
      \<and> length (requests fx') = length ([] :: (py_exn + fixture_doc response) list) + 1"
    using finally_return_swallows_every_exception
      [where L = fixture_libs and wiki_url = ?url and title = ?title and full = "[]"
        and r = ?pg and es = ?es and limit = 2 and e = "Exn ParserError None"
        and rest = "[]" and offset = "[]", THEN conjunct1] page_hyps
    by (rule mp)
  then have page: "\<exists>fx'. get_page_history fixture_libs [?pg] ?url [] 2
     = Some (Inr (replicate 2 (''Editor'', ''yesterday'', ?title)), fx')
     \<and> length (requests fx') = 1"
    by (simp add: page_entries_of_def zip_replicate)
  have match_hyps: "raise_for_status ?resp = Inr ()
      \<and> document_fromstring fixture_libs (content ?resp) = Inr (content ?resp)
      \<and> (\<exists>url\<in>set (xpath fixture_libs (content ?resp) user_titles_query).
            title_from_url url = None)"
    by (simp add: raise_for_status_def fixture_xpath_titles title_no_slash
        fixture_document_fromstring)
  have uraised: "user_body fixture_libs ''Alice'' 1 (Inr ?resp) = Raised [] (Exn AttributeError None)"
    using finally_return_swallows_every_exception
      [where L = fixture_libs and username = "''Alice''" and response = ?resp and limit = 1
        and document = "content ?resp",
        THEN conjunct2, THEN conjunct2, THEN conjunct2, THEN conjunct2, THEN conjunct2]
      match_hyps
    by (rule mp)
  have user_hyps: "(\<forall>p\<in>set []. continues (user_body fixture_libs ''Alice'' 1 p))
      \<and> user_body fixture_libs ''Alice'' 1 (Inr ?resp) = Raised [] (Exn AttributeError None)"
    using uraised by simp
  have "\<exists>fx'. get_user_edit_history fixture_libs ([] @ Inr ?resp # []) ''Alice'' [] 1
        = Some (concat (map (\<lambda>p. appended (user_body fixture_libs ''Alice'' 1 p)) []) @ [], fx')
      \<and> length (requests fx') = length ([] :: (py_exn + fixture_doc response) list) + 1"
    using finally_return_swallows_every_exception
      [where L = fixture_libs and username = "''Alice''" and full = "[]"
        and r = "Inr ?resp" and es = "[]" and limit = 1 and e = "Exn AttributeError None"
        and rest = "[]" and offset = "[]", THEN conjunct2, THEN conjunct2, THEN conjunct1]
      user_hyps
    by (rule mp)
  then have user: "\<exists>fx'. get_user_edit_history fixture_libs
       [contributions_page 200 [''2011-05-04T13:02:00''] [''Some_Page'']] ''Alice'' [] 1
     = Some ([], fx') \<and> length (requests fx') = 1"
    by (simp add: contributions_page_def)
  from page user show ?thesis by (rule conjI)
qed

lemma user_columns_no_match:
  assumes "raise_for_status response = Inr ()"
    and "document_fromstring L (content response) = Inr document"
    and "\<exists>url\<in>set (xpath L document user_titles_query). title_from_url url = None"
  shows "user_columns L (Inr response) = None"
proof -
  from assms(3) obtain url where "url \<in> set (xpath L document user_titles_query)"
    "title_from_url url = None" by blast
  then have "edit_page_titles_of (xpath L document user_titles_query)
      = Inl (Exn AttributeError None)"
    by (rule edit_page_titles_no_match)
  with assms(1,2) show ?thesis
    by (simp add: user_columns_def)
qed

text \<open>
  Claim C6. In user mode a contribution link whose href has no title match is fatal for
  the whole page: the round raises before any record of the page is built, so none of the
  page's records is kept (not even those whose links matched), the loop ends, and the
  function returns the records of the earlier pages.
\<close>

theorem title_no_match_aborts_page_batch:
  "raise_for_status response = Inr ()
     \<and> document_fromstring L (content response) = Inr document
     \<and> (\<exists>url\<in>set (xpath L document user_titles_query). title_from_url url = None)
   \<longrightarrow> user_body L username limit (Inr response) = Raised [] (Exn AttributeError None)
     \<and> user_columns L (Inr response) = None
     \<and> ((\<forall>p\<in>set full. continues (user_body L username limit p))
        \<longrightarrow> (\<exists>fx'. get_user_edit_history L (full @ Inr response # rest) username offset limit
                   = Some (concat (map (\<lambda>p. appended (user_body L username limit p)) full), fx')
                 \<and> length (requests fx') = length full + 1))"
proof (intro impI conjI)
  assume a: "raise_for_status response = Inr ()
     \<and> document_fromstring L (content response) = Inr document
     \<and> (\<exists>url\<in>set (xpath L document user_titles_query). title_from_url url = None)"
  then show b: "user_body L username limit (Inr response) = Raised [] (Exn AttributeError None)"
    using user_body_no_match [of response L document username limit] by blast
  from a show "user_columns L (Inr response) = None"
    using user_columns_no_match [of response L document] by blast
  assume "\<forall>p\<in>set full. continues (user_body L username limit p)"
  from get_user_edit_history_raised [OF this b, of rest offset]
  show "\<exists>fx'. get_user_edit_history L (full @ Inr response # rest) username offset limit
                   = Some (concat (map (\<lambda>p. appended (user_body L username limit p)) full), fx')
                 \<and> length (requests fx') = length full + 1"
    by auto
qed

theorem title_no_match_aborts_page_batch_witness:
  "\<exists>fx'. get_user_edit_history fixture_libs
       [contributions_page 200 (replicate 2 ''2011-05-04T13:02:00'') (replicate 2 ''/wiki/Some_Page''),
        Inr \<lparr>status_code = 200,
             content = [(user_times_query, [''2011-05-04T13:02:00'', ''2011-05-04T13:02:00'']),
                        (user_titles_query, [''/wiki/Some_Page'', ''Some_Page''])]\<rparr>]
       ''Alice'' [] 2
     = Some (replicate 2 (''Alice'', ''2011-05-04T13:02:00'', ''Some_Page''), fx')
     \<and> length (requests fx') = 2"
proof -
  let ?pg = "contributions_page 200 (replicate 2 ''2011-05-04T13:02:00'')
      (replicate 2 ''/wiki/Some_Page'')"
  let ?resp = "\<lparr>status_code = 200,
      content = [(user_times_query, [''2011-05-04T13:02:00'', ''2011-05-04T13:02:00'']),
                 (user_titles_query, [''/wiki/Some_Page'', ''Some_Page''])]\<rparr>"
  have hyps: "raise_for_status ?resp = Inr ()
      \<and> document_fromstring fixture_libs (content ?resp) = Inr (content ?resp)
      \<and> (\<exists>url\<in>set (xpath fixture_libs (content ?resp) user_titles_query).
            title_from_url url = None)"
    by (simp add: raise_for_status_def fixture_xpath_titles title_no_slash
        fixture_document_fromstring)
  have full: "\<forall>p\<in>set [?pg]. continues (user_body fixture_libs ''Alice'' 2 p)"
    by (simp add: fixture_contributions_page_continues)
  have "user_body fixture_libs ''Alice'' 2 (Inr ?resp) = Raised [] (Exn AttributeError None)
     \<and> user_columns fixture_libs (Inr ?resp) = None
     \<and> ((\<forall>p\<in>set [?pg]. continues (user_body fixture_libs ''Alice'' 2 p))
        \<longrightarrow> (\<exists>fx'. get_user_edit_history fixture_libs ([?pg] @ Inr ?resp # []) ''Alice'' [] 2
                   = Some (concat (map (\<lambda>p. appended (user_body fixture_libs ''Alice'' 2 p)) [?pg]), fx')
                 \<and> length (requests fx') = length [?pg] + 1))"
    using title_no_match_aborts_page_batch
      [where L = fixture_libs and response = ?resp and document = "content ?resp"
        and username = "''Alice''" and limit = 2 and full = "[?pg]" and rest = "[]"
        and offset = "[]"] hyps
    by (rule mp)
  then have "\<exists>fx'. get_user_edit_history fixture_libs ([?pg] @ Inr ?resp # []) ''Alice'' [] 2
                   = Some (concat (map (\<lambda>p. appended (user_body fixture_libs ''Alice'' 2 p)) [?pg]), fx')
                 \<and> length (requests fx') = length [?pg] + 1"
    using full by blast
  then show ?thesis
    by (auto simp: fixture_contributions_page_appended user_entries_of_def zip_replicate)
qed

lemma page_body_status:
  "page_body L title limit (Inr (response\<lparr>status_code := s\<rparr>))
     = page_body L title limit (Inr response)"
  by (simp add: page_body_def)

lemma page_body_map_status:
  "page_body L title limit (restatus f r)
     = page_body L title limit r"
  by (cases r) (simp_all add: page_body_def restatus_def)

lemma page_loop_status:
  "page_history_loop L title limit (map (restatus f) script)
       offset url all_entries fx
     = page_history_loop L title limit script offset url all_entries fx"
proof (induction script arbitrary: offset url all_entries fx)
  case Nil
  then show ?case by simp
next
  case (Cons r script)
  show ?case
    by (cases "page_body L title limit r") (simp_all add: page_body_map_status Cons.IH)
qed

lemma get_page_history_status:
  "get_page_history L (map (restatus f) script)
       wiki_url offset limit
     = get_page_history L script wiki_url offset limit"
  by (simp add: get_page_history_def page_loop_status split: option.splits)

lemma page_columns_parsed:
  "document_fromstring L (content response) = Inr document \<Longrightarrow>
   page_columns L (Inr response)
     = Some (xpath L document editors_query, xpath L document page_times_query)"
  by (simp add: page_columns_def)

text \<open>
  Claim C10. \<^verbatim>\<open>get_page_history\<close> never looks at the status of a response: changing the
  status codes of the responses in any way changes nothing of its result, and a response
  of any status (404 or 500, say) whose body yields fewer than \<open>limit\<close> records ends the
  loop by \<^verbatim>\<open>break\<close> with the records collected so far. \<^verbatim>\<open>get_user_edit_history\<close> calls
  \<^verbatim>\<open>raise_for_status\<close>: a status in 400..599 raises \<^verbatim>\<open>HTTPError\<close>, a
  \<^verbatim>\<open>RequestException\<close>, before the body is parsed, which ends the pagination and is logged
  as a fetch fault.
\<close>

theorem status_ignored_by_page_history_checked_by_user_history:
  "get_page_history L (map (restatus f) script)
       wiki_url offset limit
     = get_page_history L script wiki_url offset limit
   \<and> (title_from_url wiki_url = Some title
      \<and> (\<forall>p\<in>set full. continues (page_body L title limit p))
      \<and> document_fromstring L (content response) = Inr document
      \<and> int (min (length (xpath L document editors_query))
                  (length (xpath L document page_times_query))) < limit
    \<longrightarrow> page_body L title limit (Inr response)
          = Break (page_entries_of title (xpath L document editors_query)
                     (xpath L document page_times_query))
       \<and> (\<exists>fx'. get_page_history L (full @ Inr response # rest) wiki_url offset limit
               = Some (Inr (concat (map (\<lambda>p. appended (page_body L title limit p)) full)
                            @ page_entries_of title (xpath L document editors_query)
                                (xpath L document page_times_query)), fx')
             \<and> length (requests fx') = length full + 1))
   \<and> (400 \<le> status_code response \<and> status_code response < 600
      \<and> (\<forall>p\<in>set full. continues (user_body L username limit p))
    \<longrightarrow> user_body L username limit (Inr response) = Raised [] (Exn HTTPError None)
       \<and> is_RequestException (Exn HTTPError None)
       \<and> (\<exists>fx'. get_user_edit_history L (full @ Inr response # rest) username offset limit
               = Some (concat (map (\<lambda>p. appended (user_body L username limit p)) full), fx')
             \<and> length (requests fx') = length full + 1
             \<and> (\<exists>l. logged fx' = l @
                     [ERROR (Str ''error fetching page, restart at last offset''),
                      ERROR (ExnObj (Exn HTTPError None))])))"
proof (intro conjI impI)
  show "get_page_history L (map (restatus f) script)
       wiki_url offset limit
     = get_page_history L script wiki_url offset limit"
    by (rule get_page_history_status)
next
  assume a: "title_from_url wiki_url = Some title
      \<and> (\<forall>p\<in>set full. continues (page_body L title limit p))
      \<and> document_fromstring L (content response) = Inr document
      \<and> int (min (length (xpath L document editors_query))
                  (length (xpath L document page_times_query))) < limit"
  then have c: "page_columns L (Inr response)
     = Some (xpath L document editors_query, xpath L document page_times_query)"
    by (simp add: page_columns_parsed)
  with a show "page_body L title limit (Inr response)
          = Break (page_entries_of title (xpath L document editors_query)
                     (xpath L document page_times_query))"
    by (simp add: page_body_columns)
  from a c show "\<exists>fx'. get_page_history L (full @ Inr response # rest) wiki_url offset limit
               = Some (Inr (concat (map (\<lambda>p. appended (page_body L title limit p)) full)
                            @ page_entries_of title (xpath L document editors_query)
                                (xpath L document page_times_query)), fx')
             \<and> length (requests fx') = length full + 1"
    by (intro get_page_history_short_page) simp_all
next
  assume a: "400 \<le> status_code response \<and> status_code response < 600
      \<and> (\<forall>p\<in>set full. continues (user_body L username limit p))"
  then show b: "user_body L username limit (Inr response) = Raised [] (Exn HTTPError None)"
    by (simp add: user_body_bad_status)
  show h: "is_RequestException (Exn HTTPError None)"
    by (simp add: is_RequestException_def)
  from a have "\<forall>p\<in>set full. continues (user_body L username limit p)" by simp
  from get_user_edit_history_raised [OF this b, of rest offset]
  obtain fx where fx: "get_user_edit_history L (full @ Inr response # rest) username offset limit
        = Some (concat (map (\<lambda>p. appended (user_body L username limit p)) full) @ [],
                user_except (Exn HTTPError None) fx)"
      "length (requests fx) = length full + 1"
    by auto
  show "\<exists>fx'. get_user_edit_history L (full @ Inr response # rest) username offset limit
               = Some (concat (map (\<lambda>p. appended (user_body L username limit p)) full), fx')
             \<and> length (requests fx') = length full + 1
             \<and> (\<exists>l. logged fx' = l @
                     [ERROR (Str ''error fetching page, restart at last offset''),
                      ERROR (ExnObj (Exn HTTPError None))])"
    using fx h by (intro exI [of _ "user_except (Exn HTTPError None) fx"])
      (auto simp: user_except_logged)
qed

lemma fixture_xpath_history:
  "xpath fixture_libs [(editors_query, editors), (page_times_query, edit_times)] editors_query
     = editors"
  "xpath fixture_libs [(editors_query, editors), (page_times_query, edit_times)] page_times_query
     = edit_times"
  using queries_differ(1) by (auto simp: fixture_libs_def)

theorem status_ignored_by_page_history_checked_by_user_history_witness:
  "(\<exists>fx'. get_page_history fixture_libs
       [Inr \<lparr>status_code = 404,
             content = [(editors_query, [''Ann'']), (page_times_query, [''2011-05-04T13:02:00''])]\<rparr>]
       ''https://en.wikipedia.org/wiki/A_Troublesome_Inheritance'' [] 500
     = Some (Inr [(''Ann'', ''2011-05-04T13:02:00'', ''A_Troublesome_Inheritance'')], fx')
     \<and> length (requests fx') = 1)
   \<and> (\<exists>fx' l. get_user_edit_history fixture_libs
       [Inr \<lparr>status_code = 404,
             content = [(user_times_query, [''2011-05-04T13:02:00'']),
                        (user_titles_query, [''/wiki/Some_Page''])]\<rparr>]
       ''Alice'' [] 500
     = Some ([], fx')
     \<and> length (requests fx') = 1
     \<and> logged fx' = l @ [ERROR (Str ''error fetching page, restart at last offset''),
                          ERROR (ExnObj (Exn HTTPError None))])"
proof -
  let ?url = "''https://en.wikipedia.org/wiki/A_Troublesome_Inheritance''"
  let ?title = "''A_Troublesome_Inheritance''"
  let ?doc = "[(editors_query, [''Ann'']), (page_times_query, [''2011-05-04T13:02:00''])]"
  let ?resp = "\<lparr>status_code = 404, content = ?doc\<rparr>"
  let ?uresp = "\<lparr>status_code = 404,
      content = [(user_times_query, [''2011-05-04T13:02:00'']),
                 (user_titles_query, [''/wiki/Some_Page''])]\<rparr>"
  note inst = status_ignored_by_page_history_checked_by_user_history
    [where L = fixture_libs and wiki_url = ?url and title = ?title and full = "[]"
      and limit = 500 and rest = "[]" and offset = "[]" and username = "''Alice''"]
  have page_hyps: "title_from_url ?url = Some ?title
      \<and> (\<forall>p\<in>set []. continues (page_body fixture_libs ?title 500 p))
      \<and> document_fromstring fixture_libs (content ?resp) = Inr ?doc
      \<and> int (min (length (xpath fixture_libs ?doc editors_query))
                  (length (xpath fixture_libs ?doc page_times_query))) < 500"
    by (simp add: title_example fixture_document_fromstring fixture_xpath_history)
  have "page_body fixture_libs ?title 500 (Inr ?resp)
          = Break (page_entries_of ?title (xpath fixture_libs ?doc editors_query)
                     (xpath fixture_libs ?doc page_times_query))
       \<and> (\<exists>fx'. get_page_history fixture_libs ([] @ Inr ?resp # []) ?url [] 500
               = Some (Inr (concat (map (\<lambda>p. appended (page_body fixture_libs ?title 500 p)) [])
                            @ page_entries_of ?title (xpath fixture_libs ?doc editors_query)
                                (xpath fixture_libs ?doc page_times_query)), fx')
             \<and> length (requests fx') = length ([] :: (py_exn + fixture_doc response) list) + 1)"
    using inst [where response = ?resp and document = ?doc, THEN conjunct2, THEN conjunct1]
      page_hyps
    by (rule mp)
  then have page: "\<exists>fx'. get_page_history fixture_libs [Inr ?resp] ?url [] 500
     = Some (Inr [(''Ann'', ''2011-05-04T13:02:00'', ?title)], fx') \<and> length (requests fx') = 1"
    by (simp add: fixture_xpath_history page_entries_of_def)
  have user_hyps: "400 \<le> status_code ?uresp \<and> status_code ?uresp < 600
      \<and> (\<forall>p\<in>set []. continues (user_body fixture_libs ''Alice'' 500 p))"
    by simp
  have "user_body fixture_libs ''Alice'' 500 (Inr ?uresp) = Raised [] (Exn HTTPError None)
       \<and> is_RequestException (Exn HTTPError None)
       \<and> (\<exists>fx'. get_user_edit_history fixture_libs ([] @ Inr ?uresp # []) ''Alice'' [] 500
               = Some (concat (map (\<lambda>p. appended (user_body fixture_libs ''Alice'' 500 p)) []), fx')
             \<and> length (requests fx') = length ([] :: (py_exn + fixture_doc response) list) + 1
             \<and> (\<exists>l. logged fx' = l @
                     [ERROR (Str ''error fetching page, restart at last offset''),
                      ERROR (ExnObj (Exn HTTPError None))]))"
    using inst [where response = ?uresp, THEN conjunct2, THEN conjunct2] user_hyps
    by (rule mp)
  then have user: "\<exists>fx' l. get_user_edit_history fixture_libs [Inr ?uresp] ''Alice'' [] 500
     = Some ([], fx') \<and> length (requests fx') = 1
     \<and> logged fx' = l @ [ERROR (Str ''error fetching page, restart at last offset''),
                          ERROR (ExnObj (Exn HTTPError None))]"
    by auto
  from page user show ?thesis by (rule conjI)
qed

lemma zip_common_prefix:
  "zip (take (min (length a) (length b)) a) (take (min (length a) (length b)) b) = zip a b"
  by (simp add: take_zip [symmetric])

lemma page_entries_common_prefix:
  "page_entries_of title a b =
     map (\<lambda>(e, t). (e, t, title))
       (zip (take (min (length a) (length b)) a) (take (min (length a) (length b)) b))"
  by (simp only: zip_common_prefix page_entries_of_def)

lemma user_entries_common_prefix:
  "user_entries_of username a b =
     map (\<lambda>(time, title). (username, time, title))
       (zip (take (min (length a) (length b)) a) (take (min (length a) (length b)) b))"
  by (simp only: zip_common_prefix user_entries_of_def)

lemma length_concat_appended_page:
  "length (concat (map (\<lambda>r. appended (page_body L title limit r)) ps))
     = sum_list (map (\<lambda>p. record_count (page_columns L p)) ps)"
  by (induction ps) (simp_all add: length_appended_page_body)

lemma length_concat_appended_user:
  "length (concat (map (\<lambda>r. appended (user_body L username limit r)) ps))
     = sum_list (map (\<lambda>p. record_count (user_columns L p)) ps)"
  by (induction ps) (simp_all add: length_appended_user_body)

lemma get_page_history_count:
  assumes "get_page_history L script wiki_url offset limit = Some (Inr out, fx')"
  shows "length out
    = sum_list (map (\<lambda>p. record_count (page_columns L p)) (take (length (requests fx')) script))"
proof (cases "title_from_url wiki_url")
  case None
  with assms show ?thesis by (simp add: get_page_history_def)
next
  case (Some title)
  with assms have
    "page_history_loop L title limit script offset (history_url title offset limit) [] no_effects
       = Some (out, fx')"
    by (auto simp: get_page_history_def)
  from page_loop_returns [OF this] obtain n where
    "length (requests fx') = length (requests no_effects) + n"
    "out = [] @ concat (map (\<lambda>r. appended (page_body L title limit r)) (take n script))"
    by blast
  then show ?thesis
    by (simp add: no_effects_def length_concat_appended_page)
qed

lemma get_user_edit_history_count:
  assumes "get_user_edit_history L script username offset limit = Some (out, fx')"
  shows "length out
    = sum_list (map (\<lambda>p. record_count (user_columns L p)) (take (length (requests fx')) script))"
proof -
  from assms have
    "user_history_loop L username limit script offset (contributions_url_of username limit offset)
       [] no_effects = Some (out, fx')"
    by (simp add: get_user_edit_history_def)
  from user_loop_returns [OF this] obtain n where
    "length (requests fx') = length (requests no_effects) + n"
    "out = [] @ concat (map (\<lambda>r. appended (user_body L username limit r)) (take n script))"
    by blast
  then show ?thesis
    by (simp add: no_effects_def length_concat_appended_user)
qed

lemma page_body_raised_is_offset:
  "page_columns L r = Some (a, b) \<Longrightarrow> page_body L title limit r = Raised es e \<Longrightarrow>
   next_offset L b = Inl e \<and> \<not> int (min (length a) (length b)) < limit"
  by (auto simp: page_body_columns split: if_splits sum.splits)

lemma user_body_raised_is_offset:
  "user_columns L r = Some (a, b) \<Longrightarrow> user_body L username limit r = Raised es e \<Longrightarrow>
   next_offset L a = Inl e \<and> \<not> int (min (length a) (length b)) < limit"
  by (auto simp: user_body_columns split: if_splits sum.splits)

text \<open>
  Claim C4. When the two columns of a fetched page differ in length, its records are the
  pairs of the common prefix, of length the minimum of the two lengths, in every case
  (break, next round, or a later fault of that round); the difference itself raises
  nothing: a round that has its two columns can only raise when computing the next offset,
  which reads the timestamp column alone. So the number of records returned is the sum,
  over the fetched pages, of the minimum of their column lengths, a page that gave no
  columns (failed fetch, unparsed body, link with no title match) counting 0.
\<close>

theorem zip_truncates_to_shorter_column:
  "(page_columns L r = Some (editors, edit_times)
    \<longrightarrow> appended (page_body L title limit r)
          = map (\<lambda>(e, t). (e, t, title))
              (zip (take (min (length editors) (length edit_times)) editors)
                   (take (min (length editors) (length edit_times)) edit_times))
       \<and> length (appended (page_body L title limit r))
          = min (length editors) (length edit_times)
       \<and> (page_body L title limit r = Raised es e \<longrightarrow> next_offset L edit_times = Inl e))
   \<and> (user_columns L r = Some (stamps, titles)
    \<longrightarrow> appended (user_body L username limit r)
          = map (\<lambda>(time, title). (username, time, title))
              (zip (take (min (length stamps) (length titles)) stamps)
                   (take (min (length stamps) (length titles)) titles))
       \<and> length (appended (user_body L username limit r))
          = min (length stamps) (length titles)
       \<and> (user_body L username limit r = Raised es e \<longrightarrow> next_offset L stamps = Inl e))
   \<and> (get_page_history L script wiki_url offset limit = Some (Inr out, fx)
    \<longrightarrow> length out
          = sum_list (map (\<lambda>p. record_count (page_columns L p))
              (take (length (requests fx)) script)))
   \<and> (get_user_edit_history L script username offset limit = Some (out, fx)
    \<longrightarrow> length out
          = sum_list (map (\<lambda>p. record_count (user_columns L p))
              (take (length (requests fx)) script)))"
proof (intro conjI impI)
  assume c: "page_columns L r = Some (editors, edit_times)"
  then have a: "appended (page_body L title limit r) = page_entries_of title editors edit_times"
    by (simp add: appended_page_body)
  then show "appended (page_body L title limit r)
          = map (\<lambda>(e, t). (e, t, title))
              (zip (take (min (length editors) (length edit_times)) editors)
                   (take (min (length editors) (length edit_times)) edit_times))"
    by (simp only: page_entries_common_prefix)
  from a show "length (appended (page_body L title limit r))
          = min (length editors) (length edit_times)"
    by simp
  assume "page_body L title limit r = Raised es e"
  with c show "next_offset L edit_times = Inl e"
    using page_body_raised_is_offset by blast
next
  assume c: "user_columns L r = Some (stamps, titles)"
  then have a: "appended (user_body L username limit r) = user_entries_of username stamps titles"
    by (simp add: appended_user_body)
  then show "appended (user_body L username limit r)
          = map (\<lambda>(time, title). (username, time, title))
              (zip (take (min (length stamps) (length titles)) stamps)
                   (take (min (length stamps) (length titles)) titles))"
    by (simp only: user_entries_common_prefix)
  from a show "length (appended (user_body L username limit r))
          = min (length stamps) (length titles)"
    by simp
  assume "user_body L username limit r = Raised es e"
  with c show "next_offset L stamps = Inl e"
    using user_body_raised_is_offset by blast
next
  assume "get_page_history L script wiki_url offset limit = Some (Inr out, fx)"
  then show "length out = sum_list (map (\<lambda>p. record_count (page_columns L p))
              (take (length (requests fx)) script))"
    by (rule get_page_history_count)
next
  assume "get_user_edit_history L script username offset limit = Some (out, fx)"
  then show "length out = sum_list (map (\<lambda>p. record_count (user_columns L p))
              (take (length (requests fx)) script))"
    by (rule get_user_edit_history_count)
qed

theorem zip_truncates_to_shorter_column_witness:
  "appended (page_body fixture_libs ''T'' 500
      (history_page 200 [''Ann'', ''Bob'', ''Cy''] [''2011-05-04T13:02:00'', ''2012-06-05T14:03:01'']))
     = [(''Ann'', ''2011-05-04T13:02:00'', ''T''), (''Bob'', ''2012-06-05T14:03:01'', ''T'')]
   \<and> (\<exists>out fx. get_page_history fixture_libs
         [history_page 200 [''Ann'', ''Bob'', ''Cy''] [''2011-05-04T13:02:00'', ''2012-06-05T14:03:01'']]
         ''https://en.wikipedia.org/wiki/A_Troublesome_Inheritance'' [] 500 = Some (Inr out, fx)
       \<and> length out = 2)"
proof -
  let ?url = "''https://en.wikipedia.org/wiki/A_Troublesome_Inheritance''"
  let ?title = "''A_Troublesome_Inheritance''"
  let ?a = "[''Ann'', ''Bob'', ''Cy'']"
  let ?b = "[''2011-05-04T13:02:00'', ''2012-06-05T14:03:01'']"
  let ?pg = "history_page 200 ?a ?b"
  have cols: "page_columns fixture_libs ?pg = Some (?a, ?b)"
    by (rule fixture_page_columns)
  have "appended (page_body fixture_libs ''T'' 500 ?pg)
          = map (\<lambda>(e, t). (e, t, ''T''))
              (zip (take (min (length ?a) (length ?b)) ?a) (take (min (length ?a) (length ?b)) ?b))
       \<and> length (appended (page_body fixture_libs ''T'' 500 ?pg)) = min (length ?a) (length ?b)
       \<and> (page_body fixture_libs ''T'' 500 ?pg = Raised [] (Exn IndexError None)
            \<longrightarrow> next_offset fixture_libs ?b = Inl (Exn IndexError None))"
    using zip_truncates_to_shorter_column
      [where L = fixture_libs and r = ?pg and editors = ?a and edit_times = ?b and title = "''T''"
        and limit = 500 and es = "[]" and e = "Exn IndexError None", THEN conjunct1] cols
    by (rule mp)
  then have first: "appended (page_body fixture_libs ''T'' 500 ?pg)
     = [(''Ann'', ''2011-05-04T13:02:00'', ''T''), (''Bob'', ''2012-06-05T14:03:01'', ''T'')]"
    by simp
  have "\<forall>p\<in>set []. continues (page_body fixture_libs ?title 500 p)"
    and "int (min (length ?a) (length ?b)) < 500"
    by simp_all
  from get_page_history_short_page
    [where rest = "[]" and offset = "[]" and limit = 500, OF title_example this(1) cols this(2)]
  obtain fx where g: "get_page_history fixture_libs [?pg] ?url [] 500
      = Some (Inr (page_entries_of ?title ?a ?b), fx)"
    and n: "length (requests fx) = 1"
    by auto
  have "length (page_entries_of ?title ?a ?b)
      = sum_list (map (\<lambda>p. record_count (page_columns fixture_libs p))
          (take (length (requests fx)) [?pg]))"
    using zip_truncates_to_shorter_column
      [where L = fixture_libs and script = "[?pg]" and wiki_url = ?url and offset = "[]"
        and limit = 500 and out = "page_entries_of ?title ?a ?b" and fx = fx,
        THEN conjunct2, THEN conjunct2, THEN conjunct1] g
    by (rule mp)
  then have "length (page_entries_of ?title ?a ?b) = 2"
    by (simp add: n cols record_count_def)
  with g have second: "\<exists>out fx. get_page_history fixture_libs [?pg] ?url [] 500 = Some (Inr out, fx)
       \<and> length out = 2"
    by blast
  from first second show ?thesis by (rule conjI)
qed

lemma last_zip_shorter:
  assumes "b \<noteq> []" "length b \<le> length a"
  shows "snd (last (zip a b)) = last b"
proof -
  have "zip a b = zip (take (length b) a) b"
    using take_zip [of "length b" a b] assms(2) by simp
  moreover have "last (zip (take (length b) a) b) = (last (take (length b) a), last b)"
    using assms by (intro last_zip) auto
  ultimately show ?thesis by simp
qed

lemma last_zip_shorter_left:
  assumes "a \<noteq> []" "length a \<le> length b"
  shows "fst (last (zip a b)) = last a"
proof -
  have "zip a b = zip a (take (length a) b)"
    using take_zip [of "length a" a b] assms(2) by simp
  moreover have "last (zip a (take (length a) b)) = (last a, last (take (length a) b))"
    using assms by (intro last_zip) auto
  ultimately show ?thesis by simp
qed

lemma last_page_entry_timestamp:
  assumes "edit_times \<noteq> []" "length edit_times \<le> length editors"
  shows "fst (snd (last (page_entries_of title editors edit_times))) = last edit_times"
proof -
  have "zip editors edit_times \<noteq> []"
    using assms by (cases editors; cases edit_times) auto
  then show ?thesis
    using last_zip_shorter [OF assms]
    by (simp add: page_entries_of_def last_map split_beta)
qed

lemma last_user_entry_timestamp:
  assumes "edit_times \<noteq> []" "length edit_times \<le> length edit_page_titles"
  shows "fst (snd (last (user_entries_of username edit_times edit_page_titles))) = last edit_times"
proof -
  have "zip edit_times edit_page_titles \<noteq> []"
    using assms by (cases edit_times; cases edit_page_titles) auto
  then show ?thesis
    using last_zip_shorter_left [OF assms]
    by (simp add: user_entries_of_def last_map split_beta)
qed

lemma page_body_next_offset:
  assumes "page_columns L r = Some (editors, edit_times)"
    and "\<not> int (min (length editors) (length edit_times)) < limit"
    and "edit_times \<noteq> []" and "parse L (last edit_times) = Inr d"
  shows "page_body L title limit r
    = Continue (page_entries_of title editors edit_times)
        (str_int (int (nat_of_digits (strftime_YmdHMS d))))"
  using assms by (simp add: page_body_columns next_offset_parsed)

lemma user_body_next_offset:
  assumes "user_columns L r = Some (edit_times, edit_page_titles)"
    and "\<not> int (min (length edit_times) (length edit_page_titles)) < limit"
    and "edit_times \<noteq> []" and "parse L (last edit_times) = Inr d"
  shows "user_body L username limit r
    = Continue (user_entries_of username edit_times edit_page_titles)
        (str_int (int (nat_of_digits (strftime_YmdHMS d))))"
  using assms by (simp add: user_body_columns next_offset_parsed)

text \<open>
  Claim C3, as amended. When a page yields at least \<open>limit\<close> records, the next offset is
  derived from the last element of the extracted timestamp column (\<^verbatim>\<open>edit_times[-1]\<close>): it
  is parsed and formatted as the numeral yyyyMMddHHmmss (for a year of four digits the
  offset is that text of 14 digits; in general it is that numeral without leading zeros),
  and the next request carries it. That element is the timestamp of the last extracted
  record whenever the timestamp column is not the longer one. A timestamp parsing as
  2011-05-04T13:02:00 yields the offset 20110504130200.
\<close>

theorem next_offset_from_last_timestamp:
  "(page_columns L r = Some (editors, edit_times)
      \<and> \<not> int (min (length editors) (length edit_times)) < limit
      \<and> edit_times \<noteq> [] \<and> parse L (last edit_times) = Inr d
    \<longrightarrow> page_body L title limit r
          = Continue (page_entries_of title editors edit_times)
              (str_int (int (nat_of_digits (strftime_YmdHMS d))))
       \<and> (page_history_loop L title limit (r # rest) offset url all_entries fx = Some (out, fx')
          \<longrightarrow> (\<exists>more. requests fx' = requests fx @ url
                  # history_url title (str_int (int (nat_of_digits (strftime_YmdHMS d)))) limit
                  # more))
       \<and> (length edit_times \<le> length editors
          \<longrightarrow> fst (snd (last (page_entries_of title editors edit_times))) = last edit_times))
   \<and> (user_columns L r = Some (stamps, titles)
      \<and> \<not> int (min (length stamps) (length titles)) < limit
      \<and> stamps \<noteq> [] \<and> parse L (last stamps) = Inr d
    \<longrightarrow> user_body L username limit r
          = Continue (user_entries_of username stamps titles)
              (str_int (int (nat_of_digits (strftime_YmdHMS d))))
       \<and> (user_history_loop L username limit (r # rest) offset url all_entries fx = Some (out, fx')
          \<longrightarrow> (\<exists>more. requests fx' = requests fx @ url
                  # contributions_url_of username limit
                      (str_int (int (nat_of_digits (strftime_YmdHMS d))))
                  # more))
       \<and> (length stamps \<le> length titles
          \<longrightarrow> fst (snd (last (user_entries_of username stamps titles))) = last stamps))
   \<and> (1000 \<le> year d
    \<longrightarrow> str_int (int (nat_of_digits (strftime_YmdHMS d))) = strftime_YmdHMS d)
   \<and> str_int (int (nat_of_digits (strftime_YmdHMS
        \<lparr>year = 2011, month = 5, day = 4, hour = 13, minute = 2, second = 0\<rparr>)))
      = ''20110504130200''"
proof (intro conjI impI)
  assume a: "page_columns L r = Some (editors, edit_times)
      \<and> \<not> int (min (length editors) (length edit_times)) < limit
      \<and> edit_times \<noteq> [] \<and> parse L (last edit_times) = Inr d"
  then show b: "page_body L title limit r
          = Continue (page_entries_of title editors edit_times)
              (str_int (int (nat_of_digits (strftime_YmdHMS d))))"
    by (intro page_body_next_offset) simp_all
  {
    assume "page_history_loop L title limit (r # rest) offset url all_entries fx = Some (out, fx')"
    with b show "\<exists>more. requests fx' = requests fx @ url
                  # history_url title (str_int (int (nat_of_digits (strftime_YmdHMS d)))) limit
                  # more"
      by (rule page_loop_next_request)
  }
  assume "length edit_times \<le> length editors"
  with a show "fst (snd (last (page_entries_of title editors edit_times))) = last edit_times"
    by (intro last_page_entry_timestamp) simp_all
next
  assume a: "user_columns L r = Some (stamps, titles)
      \<and> \<not> int (min (length stamps) (length titles)) < limit
      \<and> stamps \<noteq> [] \<and> parse L (last stamps) = Inr d"
  then show b: "user_body L username limit r
          = Continue (user_entries_of username stamps titles)
              (str_int (int (nat_of_digits (strftime_YmdHMS d))))"
    by (intro user_body_next_offset) simp_all
  {
    assume "user_history_loop L username limit (r # rest) offset url all_entries fx = Some (out, fx')"
    with b show "\<exists>more. requests fx' = requests fx @ url
                  # contributions_url_of username limit
                      (str_int (int (nat_of_digits (strftime_YmdHMS d))))
                  # more"
      by (rule user_loop_next_request)
  }
  assume "length stamps \<le> length titles"
  with a show "fst (snd (last (user_entries_of username stamps titles))) = last stamps"
    by (intro last_user_entry_timestamp) simp_all
next
  assume "1000 \<le> year d"
  then show "str_int (int (nat_of_digits (strftime_YmdHMS d))) = strftime_YmdHMS d"
    by (rule offset_is_strftime)
next
  have "str_int (int (nat_of_digits (strftime_YmdHMS
        \<lparr>year = 2011, month = 5, day = 4, hour = 13, minute = 2, second = 0\<rparr>)))
      = strftime_YmdHMS \<lparr>year = 2011, month = 5, day = 4, hour = 13, minute = 2, second = 0\<rparr>"
    by (rule offset_is_strftime) simp
  then show "str_int (int (nat_of_digits (strftime_YmdHMS
        \<lparr>year = 2011, month = 5, day = 4, hour = 13, minute = 2, second = 0\<rparr>)))
      = ''20110504130200''"
    by (simp only: strftime_example)
qed

theorem next_offset_from_last_timestamp_witness:
  "page_body fixture_libs ''T'' 2
      (history_page 200 (replicate 2 ''Editor'') (replicate 2 ''2011-05-04T13:02:00''))
     = Continue (replicate 2 (''Editor'', ''2011-05-04T13:02:00'', ''T'')) ''20110504130200''
   \<and> fst (snd (last (page_entries_of ''T'' (replicate 2 ''Editor'')
        (replicate 2 ''2011-05-04T13:02:00'')))) = ''2011-05-04T13:02:00''"
proof -
  let ?a = "replicate 2 ''Editor''"
  let ?b = "replicate 2 ''2011-05-04T13:02:00''"
  let ?pg = "history_page 200 ?a ?b"
  let ?d = "\<lparr>year = 2011, month = 5, day = 4, hour = 13, minute = 2, second = 0\<rparr>"
  note inst = next_offset_from_last_timestamp
    [where L = fixture_libs and r = ?pg and editors = ?a and edit_times = ?b and limit = 2
      and d = ?d and title = "''T''"]
  have hyps: "page_columns fixture_libs ?pg = Some (?a, ?b)
      \<and> \<not> int (min (length ?a) (length ?b)) < 2
      \<and> ?b \<noteq> [] \<and> parse fixture_libs (last ?b) = Inr ?d"
    by (simp add: fixture_page_columns fixture_parse fixture_parse_def)
  have short: "length ?b \<le> length ?a"
    by simp
  have num: "str_int (int (nat_of_digits (strftime_YmdHMS ?d))) = ''20110504130200''"
    using inst [THEN conjunct2, THEN conjunct2, THEN conjunct2] .
  have "page_body fixture_libs ''T'' 2 ?pg
          = Continue (page_entries_of ''T'' ?a ?b) (str_int (int (nat_of_digits (strftime_YmdHMS ?d))))
       \<and> (page_history_loop fixture_libs ''T'' 2 (?pg # []) [] [] [] no_effects
            = Some ([], no_effects)
          \<longrightarrow> (\<exists>more. requests no_effects = requests no_effects @ []
                  # history_url ''T'' (str_int (int (nat_of_digits (strftime_YmdHMS ?d)))) 2
                  # more))
       \<and> (length ?b \<le> length ?a
          \<longrightarrow> fst (snd (last (page_entries_of ''T'' ?a ?b))) = last ?b)"
    using inst [where rest = "[]" and offset = "[]" and url = "[]" and all_entries = "[]"
        and fx = no_effects and out = "[]" and fx' = no_effects, THEN conjunct1] hyps
    by (rule mp)
  then have "page_body fixture_libs ''T'' 2 ?pg
          = Continue (page_entries_of ''T'' ?a ?b) ''20110504130200''"
    and "fst (snd (last (page_entries_of ''T'' ?a ?b))) = last ?b"
    using short by (simp_all only: num)
  then show ?thesis
    by (simp add: page_entries_of_def zip_replicate)
qed

lemma strftime_example_2012:
  "strftime_YmdHMS \<lparr>year = 2012, month = 6, day = 5, hour = 14, minute = 3, second = 1\<rparr>
     = ''20120605140301''"
  by (simp add: strftime_YmdHMS_def zfill_def str_nat.simps digit_char_def)

lemma fixture_next_offset_2012:
  "next_offset fixture_libs [''2011-05-04T13:02:00'', ''2012-06-05T14:03:01'']
     = Inr ''20120605140301''"
proof -
  have "parse fixture_libs (last [''2011-05-04T13:02:00'', ''2012-06-05T14:03:01''])
      = Inr \<lparr>year = 2012, month = 6, day = 5, hour = 14, minute = 3, second = 1\<rparr>"
    by (simp add: fixture_parse fixture_parse_def)
  then have "next_offset fixture_libs [''2011-05-04T13:02:00'', ''2012-06-05T14:03:01'']
      = Inr (str_int (int (nat_of_digits (strftime_YmdHMS
          \<lparr>year = 2012, month = 6, day = 5, hour = 14, minute = 3, second = 1\<rparr>))))"
    by (intro next_offset_parsed) simp_all
  also have "str_int (int (nat_of_digits (strftime_YmdHMS
          \<lparr>year = 2012, month = 6, day = 5, hour = 14, minute = 3, second = 1\<rparr>)))
      = strftime_YmdHMS \<lparr>year = 2012, month = 6, day = 5, hour = 14, minute = 3, second = 1\<rparr>"
    by (rule offset_is_strftime) simp
  finally show ?thesis by (simp only: strftime_example_2012)
qed

text \<open>
  The claim as first stated fails on a page whose timestamp column is the longer one:
  with \<open>limit = 1\<close>, one editor and two timestamps, the only record carries the first
  timestamp, whose offset would be 20110504130200, but the next offset is that of the
  second timestamp.
\<close>

theorem next_offset_not_from_last_record:
  "page_body fixture_libs ''T'' 1
      (history_page 200 [''Ann''] [''2011-05-04T13:02:00'', ''2012-06-05T14:03:01''])
     = Continue [(''Ann'', ''2011-05-04T13:02:00'', ''T'')] ''20120605140301''
   \<and> next_offset fixture_libs [''2011-05-04T13:02:00''] = Inr ''20110504130200''
   \<and> ''20120605140301'' \<noteq> ''20110504130200''"
proof (intro conjI)
  have "page_columns fixture_libs
      (history_page 200 [''Ann''] [''2011-05-04T13:02:00'', ''2012-06-05T14:03:01''])
    = Some ([''Ann''], [''2011-05-04T13:02:00'', ''2012-06-05T14:03:01''])"
    by (rule fixture_page_columns)
  then show "page_body fixture_libs ''T'' 1
      (history_page 200 [''Ann''] [''2011-05-04T13:02:00'', ''2012-06-05T14:03:01''])
     = Continue [(''Ann'', ''2011-05-04T13:02:00'', ''T'')] ''20120605140301''"
    by (simp add: page_body_columns fixture_next_offset_2012 page_entries_of_def)
  show "next_offset fixture_libs [''2011-05-04T13:02:00''] = Inr ''20110504130200''"
    using fixture_next_offset [of 1] by simp
  show "''20120605140301'' \<noteq> ''20110504130200''"
    by simp
qed

section \<open>The claim about the title fault\<close>

lemma get_page_history_no_title:
  "title_from_url wiki_url = None \<Longrightarrow>
   get_page_history L script wiki_url offset limit
     = Some (Inl (Exn ValueError None),
             \<lparr>requests = [], logged = [ERROR (Str ''No title found'')]\<rparr>)"
  by (simp add: get_page_history_def no_effects_def)

lemma main_no_title:
  assumes "arg_page args = Some url" "url \<noteq> []" "truthy (arg_user args) = None"
    and "title_from_url url = None"
  shows "\<exists>fx. (main L script fsys args = Some (SysExit 1, fsys, fx)
            \<or> main L script fsys args = Some (Uncaught (Exn ValueError None), fsys, fx))
          \<and> requests fx = []"
proof (cases "truthy (arg_output args)")
  case None
  with assms show ?thesis
    by (simp add: main_def truthy_def no_effects_def)
next
  case (Some name)
  with assms show ?thesis
    by (simp add: main_def truthy_def get_page_history_no_title)
qed

lemma title_None_iff:
  assumes "newline \<notin> set url"
  shows "title_from_url url = None \<longleftrightarrow>
    \<not> (\<exists>seg pre sl. seg \<noteq> [] \<and> slash \<notin> set seg \<and> url = pre @ slash # seg @ sl
          \<and> set sl \<subseteq> {slash})"
proof -
  have "title_from_url url = None \<longleftrightarrow> \<not> (\<exists>seg. last_seg url = Some seg)"
    using title_from_url_last_seg [OF assms] by simp
  then show ?thesis
    unfolding last_seg_Some by blast
qed

text \<open>
  Claim C5. For every URL in which title recovery finds no match, \<^verbatim>\<open>get_page_history\<close>
  raises (the \<^verbatim>\<open>ValueError\<close> of line 43) before any request is sent, whatever the site
  would answer, and produces no records. On a text without line feed that is the case
  exactly when no non-empty slash-free segment follows a slash and is followed by slashes
  only. The fault is fatal for a page-mode invocation: \<^verbatim>\<open>main\<close> then ends with
  \<^verbatim>\<open>sys.exit(1)\<close> (no output name given) or with the uncaught \<^verbatim>\<open>ValueError\<close>, sends no
  request and leaves the file system as it was.
\<close>

theorem no_title_raises_before_any_fetch:
  "(title_from_url wiki_url = None
    \<longrightarrow> get_page_history L script wiki_url offset limit
          = Some (Inl (Exn ValueError None),
                  \<lparr>requests = [], logged = [ERROR (Str ''No title found'')]\<rparr>))
   \<and> (newline \<notin> set wiki_url
    \<longrightarrow> (title_from_url wiki_url = None \<longleftrightarrow>
          \<not> (\<exists>seg pre sl. seg \<noteq> [] \<and> slash \<notin> set seg \<and> wiki_url = pre @ slash # seg @ sl
                \<and> set sl \<subseteq> {slash})))
   \<and> (arg_page args = Some wiki_url \<and> wiki_url \<noteq> [] \<and> truthy (arg_user args) = None
      \<and> title_from_url wiki_url = None
    \<longrightarrow> (\<exists>fx. (main L script fsys args = Some (SysExit 1, fsys, fx)
               \<or> main L script fsys args = Some (Uncaught (Exn ValueError None), fsys, fx))
             \<and> requests fx = []))"
proof (intro conjI impI)
  assume "title_from_url wiki_url = None"
  then show "get_page_history L script wiki_url offset limit
          = Some (Inl (Exn ValueError None),
                  \<lparr>requests = [], logged = [ERROR (Str ''No title found'')]\<rparr>)"
    by (rule get_page_history_no_title)
next
  assume "newline \<notin> set wiki_url"
  then show "title_from_url wiki_url = None \<longleftrightarrow>
          \<not> (\<exists>seg pre sl. seg \<noteq> [] \<and> slash \<notin> set seg \<and> wiki_url = pre @ slash # seg @ sl
                \<and> set sl \<subseteq> {slash})"
    by (rule title_None_iff)
next
  assume "arg_page args = Some wiki_url \<and> wiki_url \<noteq> [] \<and> truthy (arg_user args) = None
      \<and> title_from_url wiki_url = None"
  then show "\<exists>fx. (main L script fsys args = Some (SysExit 1, fsys, fx)
               \<or> main L script fsys args = Some (Uncaught (Exn ValueError None), fsys, fx))
             \<and> requests fx = []"
    using main_no_title [of args wiki_url L script fsys] by blast
qed

theorem no_title_raises_before_any_fetch_witness:
  "get_page_history fixture_libs
      [history_page 200 [''Ann''] [''2011-05-04T13:02:00'']] ''Some_Page'' [] 500
     = Some (Inl (Exn ValueError None),
             \<lparr>requests = [], logged = [ERROR (Str ''No title found'')]\<rparr>)"
  using no_title_raises_before_any_fetch
    [where L = fixture_libs and wiki_url = "''Some_Page''" and offset = "[]" and limit = 500
      and script = "[history_page 200 [''Ann''] [''2011-05-04T13:02:00'']]", THEN conjunct1]
    title_no_slash
  by (rule mp)

section \<open>The writer and the reader\<close>




lemma CR_LF_chars [simp]:
  "CR \<noteq> LF" "LF \<noteq> CR" "CR \<noteq> comma" "LF \<noteq> comma" "CR \<noteq> dquote" "LF \<noteq> dquote"
  "comma \<noteq> dquote" "dquote \<noteq> comma" "comma \<noteq> CR" "comma \<noteq> LF" "dquote \<noteq> CR" "dquote \<noteq> LF"
  by (simp_all add: CR_def LF_def comma_def dquote_def)



lemma pstate_add_char [simp]: "pstate (add_char c r) = pstate r"
  by (simp add: add_char_def)









text \<open>One field of a row, from the start of a field to the character after it.\<close>

lemma needs_quotes_Nil [simp]: "\<not> needs_quotes []"
  by (simp add: needs_quotes_def)
















lemma write_lines_stop:
  "list_all enc (concat lines) \<Longrightarrow> \<not> list_all enc line
   \<Longrightarrow> write_lines enc written (lines @ line # lines')
       = (Some (Exn UnicodeEncodeError None), written @ concat lines)"
  by (induction lines arbitrary: written) simp_all










section \<open>The claim about the writer\<close>




end
